theory Spec2Isabelle
  imports Main "HOL-Library.Char_ord" "HOL-Library.List_Lexorder" "HOL-Library.Multiset"
    "HOL-Library.Sublist" "HOL-Library.Code_Target_Nat"
begin

section \<open>JavaScript primitives used by the scripts\<close>

text \<open>
  A JavaScript string is modelled as a \<^typ>\<open>string\<close>, one \<^typ>\<open>char\<close> per code unit
  (code units below 256). The character classes of the regular expressions in the
  scripts are ASCII classes; \<open>\d\<close> is \<open>[0-9]\<close>.
\<close>

definition isDigit :: "char \<Rightarrow> bool" where
  "isDigit c = (CHR ''0'' \<le> c \<and> c \<le> CHR ''9'')"

definition isLetter :: "char \<Rightarrow> bool" where
  "isLetter c = ((CHR ''a'' \<le> c \<and> c \<le> CHR ''z'') \<or> (CHR ''A'' \<le> c \<and> c \<le> CHR ''Z''))"

text \<open>The class \<open>[a-zA-Z0-9-]\<close>.\<close>

definition isIdChar :: "char \<Rightarrow> bool" where
  "isIdChar c = (isLetter c \<or> isDigit c \<or> c = CHR ''-'')"

text \<open>The class \<open>[a-zA-Z0-9.-]\<close>.\<close>

definition isPreChar :: "char \<Rightarrow> bool" where
  "isPreChar c = (isIdChar c \<or> c = CHR ''.'')"

text \<open>
  The white space that \<open>String.prototype.trim\<close> removes, among the code units below 256:
  TAB, LF, VT, FF, CR, SPACE and NO-BREAK SPACE.
\<close>

definition isSpace :: "char \<Rightarrow> bool" where
  "isSpace c = (c \<in> {CHR 0x09, CHR 0x0A, CHR 0x0B, CHR 0x0C, CHR 0x0D, CHR 0x20, CHR 0xA0})"

definition trim :: "string \<Rightarrow> string" where
  "trim s = rev (dropWhile isSpace (rev (dropWhile isSpace s)))"

text \<open>\<open>s.split(c)\<close> for a separator of one character: never empty, \<open>''''\<close> gives \<open>[''''] \<close>.\<close>

fun splitOn :: "char \<Rightarrow> string \<Rightarrow> string list" where
  "splitOn c [] = [[]]"
| "splitOn c (x # xs) =
     (if x = c then [] # splitOn c xs
      else (case splitOn c xs of [] \<Rightarrow> [[x]] | y # ys \<Rightarrow> (x # y) # ys))"

text \<open>The text before the first occurrence of a character, and the text after it (if it occurs).\<close>

definition breakAt :: "char \<Rightarrow> string \<Rightarrow> string \<times> string option" where
  "breakAt c s =
     (takeWhile (\<lambda>x. x \<noteq> c) s,
      case dropWhile (\<lambda>x. x \<noteq> c) s of [] \<Rightarrow> None | _ # r \<Rightarrow> Some r)"

definition digitVal :: "char \<Rightarrow> nat" where
  "digitVal c = of_char c - 48"

text \<open>
  The number a string of decimal digits denotes: \<open>+s\<close> and \<open>parseInt(s, 10)\<close> on such a
  string. JavaScript numbers are doubles; the model is exact, which agrees with the
  scripts for values below \<open>2^53\<close>.
\<close>

definition parseDigits :: "string \<Rightarrow> nat" where
  "parseDigits ds = foldl (\<lambda>n c. 10 * n + digitVal c) 0 ds"

definition digitChar :: "nat \<Rightarrow> char" where
  "digitChar d = ''0123456789'' ! d"

text \<open>
  A non-negative integer in a template string: its decimal digits. This is what the
  runtime prints for the integers it holds exactly, up to \<open>2^53\<close>; the build number of
  the scripts is the constant 1.
\<close>

fun showNat :: "nat \<Rightarrow> string" where
  "showNat n = (if n < 10 then [digitChar n] else showNat (n div 10) @ [digitChar (n mod 10)])"

declare showNat.simps [simp del]

definition showInt :: "int \<Rightarrow> string" where
  "showInt i = (if i < 0 then CHR ''-'' # showNat (nat (- i)) else showNat (nat i))"

text \<open>
  What a raise gives: the scripts only tell whether something was thrown
  (\<open>TypeError\<close> by the semver package, a rejected \<open>execAsync\<close>).
\<close>

datatype js_error = TypeError | ExecError

section \<open>The semver package\<close>

text \<open>
  The scripts import the package \<open>semver\<close>, a dependency that is not part of the
  repository. Like the built-in functions of JavaScript it is modelled by what it does,
  in its strict (non-loose) mode: a version is at most 256 characters, is trimmed, may
  start with one \<open>v\<close>, has three numeric components without leading zeros, each at most
  \<open>MAX_SAFE_INTEGER\<close>, then an optional \<open>-\<close> with dot-separated prerelease identifiers
  and an optional \<open>+\<close> with dot-separated build identifiers. Build identifiers are
  checked and dropped: precedence ignores them. The spec calls these values semantic
  versions, "a major.minor.patch triple with optional prerelease label, ordered by a
  defined precedence rule".
\<close>

datatype ident = Num nat | Str string

record SemVer =
  major :: nat
  minor :: nat
  patch :: nat
  prerelease :: "ident list"

definition MAX_LENGTH :: nat where
  "MAX_LENGTH = 256"

definition MAX_SAFE_INTEGER :: nat where
  "MAX_SAFE_INTEGER = 9007199254740991"

text \<open>\<open>0|[1-9]\d*\<close>\<close>

definition numericIdentifier :: "string \<Rightarrow> bool" where
  "numericIdentifier s = (s \<noteq> [] \<and> list_all isDigit s \<and> (s = ''0'' \<or> hd s \<noteq> CHR ''0''))"

text \<open>\<open>0|[1-9]\d*|\d*[a-zA-Z-][a-zA-Z0-9-]*\<close>\<close>

definition prereleaseIdentifier :: "string \<Rightarrow> bool" where
  "prereleaseIdentifier s =
     (s \<noteq> [] \<and> list_all isIdChar s \<and> (if list_all isDigit s then numericIdentifier s else True))"

text \<open>\<open>[0-9A-Za-z-]+\<close>\<close>

definition buildIdentifier :: "string \<Rightarrow> bool" where
  "buildIdentifier s = (s \<noteq> [] \<and> list_all isIdChar s)"

text \<open>
  A prerelease identifier made of digits is a number, any other is a string. The
  package keeps a numeric identifier of \<open>MAX_SAFE_INTEGER\<close> or more as a string and
  turns it into a double when it compares it, so two such identifiers from \<open>2^53\<close> on
  can compare equal. The model keeps the exact number: it is the package's comparison
  on the versions whose numeric prerelease identifiers are below \<open>2^53\<close>
  (\<open>exactVersion\<close> below).
\<close>

definition parseIdent :: "string \<Rightarrow> ident" where
  "parseIdent s = (if list_all isDigit s then Num (parseDigits s) else Str s)"

text \<open>
  \<open>new SemVer(version)\<close>; \<open>None\<close> where the constructor throws \<open>TypeError\<close>.
  \<open>semver.parse(version)\<close> is the same, with \<open>null\<close> for the exception. The pattern of a
  full version is anchored at both ends, so the text splits in one way only: the build
  identifiers after the first \<open>+\<close>, the prerelease identifiers after the first \<open>-\<close>
  before it, and the three components between the dots of what is left.
\<close>

definition parseSemVer :: "string \<Rightarrow> SemVer option" where
  "parseSemVer version =
     (if length version > MAX_LENGTH then None
      else
        let s = trim version;
            s1 = (case s of [] \<Rightarrow> s | c # r \<Rightarrow> if c = CHR ''v'' then r else s);
            (s2, build) = breakAt (CHR ''+'') s1;
            (core, pre) = breakAt (CHR ''-'') s2
        in case splitOn (CHR ''.'') core of
             [ma, mi, pa] \<Rightarrow>
               if numericIdentifier ma \<and> numericIdentifier mi \<and> numericIdentifier pa
                  \<and> (case pre of None \<Rightarrow> True
                      | Some p \<Rightarrow> list_all prereleaseIdentifier (splitOn (CHR ''.'') p))
                  \<and> (case build of None \<Rightarrow> True
                      | Some b \<Rightarrow> list_all buildIdentifier (splitOn (CHR ''.'') b))
                  \<and> parseDigits ma \<le> MAX_SAFE_INTEGER
                  \<and> parseDigits mi \<le> MAX_SAFE_INTEGER
                  \<and> parseDigits pa \<le> MAX_SAFE_INTEGER
               then Some \<lparr>major = parseDigits ma, minor = parseDigits mi, patch = parseDigits pa,
                          prerelease = (case pre of None \<Rightarrow> []
                                        | Some p \<Rightarrow> map parseIdent (splitOn (CHR ''.'') p))\<rparr>
               else None
           | _ \<Rightarrow> None)"

text \<open>
  \<open>semver.valid(v)\<close> is the normalised version or \<open>null\<close>; the scripts use its truthiness.
  (As in the versions of the package where \<open>parse\<close> calls the constructor, which trims.)
\<close>

definition semver_valid :: "string \<Rightarrow> bool" where
  "semver_valid v = (parseSemVer v \<noteq> None)"

text \<open>\<open>compareIdentifiers\<close>: numbers before strings, numbers by value, strings by code unit.\<close>

fun compareIdentifiers :: "ident \<Rightarrow> ident \<Rightarrow> int" where
  "compareIdentifiers (Num a) (Num b) = (if a = b then 0 else if a < b then - 1 else 1)"
| "compareIdentifiers (Num a) (Str b) = - 1"
| "compareIdentifiers (Str a) (Num b) = 1"
| "compareIdentifiers (Str a) (Str b) = (if a = b then 0 else if a < b then - 1 else 1)"

definition compareNum :: "nat \<Rightarrow> nat \<Rightarrow> int" where
  "compareNum a b = (if a = b then 0 else if a < b then - 1 else 1)"

text \<open>\<open>compareMain\<close>: \<open>x || y || z\<close> takes the first component that differs.\<close>

definition compareMain :: "SemVer \<Rightarrow> SemVer \<Rightarrow> int" where
  "compareMain x y =
     (if compareNum (major x) (major y) \<noteq> 0 then compareNum (major x) (major y)
      else if compareNum (minor x) (minor y) \<noteq> 0 then compareNum (minor x) (minor y)
      else compareNum (patch x) (patch y))"

text \<open>The \<open>do ... while (++i)\<close> loop of \<open>comparePre\<close> over the two identifier arrays.\<close>

fun comparePreLoop :: "ident list \<Rightarrow> ident list \<Rightarrow> int" where
  "comparePreLoop [] [] = 0"
| "comparePreLoop (a # as) [] = 1"
| "comparePreLoop [] (b # bs) = - 1"
| "comparePreLoop (a # as) (b # bs) =
     (if a = b then comparePreLoop as bs else compareIdentifiers a b)"

definition comparePre :: "SemVer \<Rightarrow> SemVer \<Rightarrow> int" where
  "comparePre x y =
     (if prerelease x \<noteq> [] \<and> prerelease y = [] then - 1
      else if prerelease x = [] \<and> prerelease y \<noteq> [] then 1
      else if prerelease x = [] \<and> prerelease y = [] then 0
      else comparePreLoop (prerelease x) (prerelease y))"

text \<open>
  \<open>SemVer.compare\<close>: \<open>compareMain(other) || comparePre(other)\<close>. (The package first
  returns 0 when the two normalised version strings are equal, which is what this
  gives on equal components.)
\<close>

definition SemVer_compare :: "SemVer \<Rightarrow> SemVer \<Rightarrow> int" where
  "SemVer_compare x y = (if compareMain x y \<noteq> 0 then compareMain x y else comparePre x y)"

text \<open>\<open>semver.compare(a, b)\<close> constructs both versions first, and throws where one is invalid.\<close>

definition semver_compare :: "string \<Rightarrow> string \<Rightarrow> js_error + int" where
  "semver_compare a b =
     (case parseSemVer a of
        None \<Rightarrow> Inl TypeError
      | Some x \<Rightarrow> (case parseSemVer b of None \<Rightarrow> Inl TypeError | Some y \<Rightarrow> Inr (SemVer_compare x y)))"

text \<open>\<open>semver.gte(a, b)\<close> and \<open>semver.gt(a, b)\<close>, \<open>False\<close> where a version is invalid.\<close>

definition semver_gte :: "string \<Rightarrow> string \<Rightarrow> bool" where
  "semver_gte a b = (case semver_compare a b of Inl e \<Rightarrow> False | Inr c \<Rightarrow> c \<ge> 0)"

definition semver_gt :: "string \<Rightarrow> string \<Rightarrow> bool" where
  "semver_gt a b = (case semver_compare a b of Inl e \<Rightarrow> False | Inr c \<Rightarrow> c > 0)"

text \<open>
  The versions on which the package compares prerelease identifiers exactly: every
  numeric prerelease identifier is below \<open>2^53\<close>. (A text that is not a version has no
  identifiers.)
\<close>

definition exactIdent :: "ident \<Rightarrow> bool" where
  "exactIdent i = (case i of Num n \<Rightarrow> n < 2 ^ 53 | Str s \<Rightarrow> True)"

definition exactVersion :: "string \<Rightarrow> bool" where
  "exactVersion v =
     (case parseSemVer v of None \<Rightarrow> True | Some x \<Rightarrow> list_all exactIdent (prerelease x))"

section \<open>\<open>Array.prototype.sort\<close> with a comparator\<close>

text \<open>
  The sort is stable, and an exception of the comparator leaves the sort. With a
  consistent comparator the result is the one stable arrangement, computed here by
  insertion from the right: \<open>x\<close> stood before every element of the sorted rest, so it
  goes before the first \<open>y\<close> with \<open>cmp x y \<le> 0\<close>. An array of two or more elements has each
  element compared at least once, so a comparator that throws on an element throws.
\<close>

fun js_insert :: "('a \<Rightarrow> 'a \<Rightarrow> js_error + int) \<Rightarrow> 'a \<Rightarrow> 'a list \<Rightarrow> js_error + 'a list" where
  "js_insert cmp x [] = Inr [x]"
| "js_insert cmp x (y # ys) =
     (case cmp x y of
        Inl e \<Rightarrow> Inl e
      | Inr c \<Rightarrow>
          if c \<le> 0 then Inr (x # y # ys)
          else (case js_insert cmp x ys of Inl e \<Rightarrow> Inl e | Inr zs \<Rightarrow> Inr (y # zs)))"

fun js_sort :: "('a \<Rightarrow> 'a \<Rightarrow> js_error + int) \<Rightarrow> 'a list \<Rightarrow> js_error + 'a list" where
  "js_sort cmp [] = Inr []"
| "js_sort cmp (x # xs) =
     (case js_sort cmp xs of Inl e \<Rightarrow> Inl e | Inr ys \<Rightarrow> js_insert cmp x ys)"

section \<open>The version catalog (build script)\<close>

record VersionEntry =
  tag :: string
  version :: string

text \<open>\<open>tag.replace(/^v/, '')\<close>\<close>

definition stripV :: "string \<Rightarrow> string" where
  "stripV t = (case t of [] \<Rightarrow> [] | c # r \<Rightarrow> if c = CHR ''v'' then r else t)"

text \<open>
  \<open>\d+\.\d+\.\d+\<close> at the start of a string: the text matched and the rest. Each \<open>\d+\<close>
  takes every digit, since what follows it in the pattern is not a digit.
\<close>

definition matchCore :: "string \<Rightarrow> (string \<times> string) option" where
  "matchCore s =
     (let a = takeWhile isDigit s; r1 = dropWhile isDigit s in
      if a = [] then None
      else case r1 of
        [] \<Rightarrow> None
      | d1 # s2 \<Rightarrow>
          if d1 \<noteq> CHR ''.'' then None
          else
            let b = takeWhile isDigit s2; r2 = dropWhile isDigit s2 in
            if b = [] then None
            else case r2 of
              [] \<Rightarrow> None
            | d2 # s3 \<Rightarrow>
                if d2 \<noteq> CHR ''.'' then None
                else
                  let c = takeWhile isDigit s3; r3 = dropWhile isDigit s3 in
                  if c = [] then None
                  else Some (a @ ''.'' @ b @ ''.'' @ c, r3))"

text \<open>
  \<open>version.match(/^(\d+\.\d+\.\d+(?:-[a-zA-Z0-9.-]+)?)/)\<close>: group 1 of the match, or \<open>None\<close>.
  The optional group is greedy and nothing follows it.
\<close>

definition matchVersionPrefix :: "string \<Rightarrow> string option" where
  "matchVersionPrefix s =
     (case matchCore s of
        None \<Rightarrow> None
      | Some (m, rest) \<Rightarrow>
          (case rest of
             [] \<Rightarrow> Some m
           | d # r \<Rightarrow>
               if d = CHR ''-'' \<and> takeWhile isPreChar r \<noteq> []
               then Some (m @ ''-'' @ takeWhile isPreChar r)
               else Some m))"

text \<open>The body of the \<open>map\<close> callback: the \<open>version\<close> field computed for a tag.\<close>

definition extractVersion :: "string \<Rightarrow> string" where
  "extractVersion t =
     (let v = stripV t in case matchVersionPrefix v of None \<Rightarrow> v | Some m \<Rightarrow> m)"

definition toEntry :: "string \<Rightarrow> VersionEntry" where
  "toEntry t = \<lparr>tag = t, version = extractVersion t\<rparr>"

text \<open>The comparator \<open>(a, b) => semver.compare(b.version, a.version)\<close>.\<close>

definition versionDesc :: "VersionEntry \<Rightarrow> VersionEntry \<Rightarrow> js_error + int" where
  "versionDesc a b = semver_compare (version b) (version a)"

text \<open>\<open>getAllValidVersions\<close>: map, filter, sort. (The warning it logs is not modelled.)\<close>

definition getAllValidVersions :: "string list \<Rightarrow> js_error + VersionEntry list" where
  "getAllValidVersions tags =
     js_sort versionDesc (filter (\<lambda>e. semver_valid (version e)) (map toEntry tags))"

section \<open>The version selector (build script)\<close>

subsection \<open>\<open>semver.satisfies\<close> on a single comparator\<close>

text \<open>
  \<open>semver.satisfies(version, range)\<close> of the same package, for the ranges that are one
  primitive comparator: an operator among \<open><\<close>, \<open><=\<close>, \<open>>\<close>, \<open>>=\<close>, \<open>=\<close> or none,
  directly followed by a full valid version \<open>M.m.p\<close> or \<open>M.m.p-prerelease\<close>. For any
  other range text the model gives \<open>None\<close> and says nothing.
\<close>

text \<open>The operator \<open>((?:<|>)?=?)\<close> at the start of a comparator, and the rest.\<close>

fun parseOperator :: "string \<Rightarrow> string \<times> string" where
  "parseOperator (a # b # r) =
     (if a = CHR ''<'' \<and> b = CHR ''='' then (''<='', r)
      else if a = CHR ''>'' \<and> b = CHR ''='' then (''>='', r)
      else if a = CHR ''<'' then (''<'', b # r)
      else if a = CHR ''>'' then (''>'', b # r)
      else if a = CHR ''='' then (''='', b # r)
      else ([], a # b # r))"
| "parseOperator s = ([], s)"

text \<open>A comparator: its operator (\<open>=\<close> is stored as the empty operator) and its version.\<close>

definition parseComparator :: "string \<Rightarrow> (string \<times> SemVer) option" where
  "parseComparator cmpText =
     (let (oper, rest) = parseOperator cmpText in
      if matchVersionPrefix rest = Some rest
      then (case parseSemVer rest of
              None \<Rightarrow> None
            | Some sv \<Rightarrow> Some (if oper = ''='' then [] else oper, sv))
      else None)"

text \<open>\<open>Comparator.test\<close>: \<open>cmp(version, operator, semver)\<close>.\<close>

definition testComparator :: "string \<times> SemVer \<Rightarrow> SemVer \<Rightarrow> bool" where
  "testComparator c v =
     (let r = SemVer_compare v (snd c) in
      if fst c = [] then r = 0
      else if fst c = ''>'' then r > 0
      else if fst c = ''>='' then r \<ge> 0
      else if fst c = ''<'' then r < 0
      else r \<le> 0)"

text \<open>
  \<open>testSet\<close> for a set of one comparator: a version with a prerelease satisfies it only
  if the comparator's version has a prerelease on the same \<open>major.minor.patch\<close>.
\<close>

definition testSet :: "string \<times> SemVer \<Rightarrow> SemVer \<Rightarrow> bool" where
  "testSet c v =
     (if \<not> testComparator c v then False
      else if prerelease v \<noteq> []
      then prerelease (snd c) \<noteq> [] \<and> major (snd c) = major v \<and> minor (snd c) = minor v
           \<and> patch (snd c) = patch v
      else True)"

text \<open>\<open>semver.satisfies\<close>: an invalid version satisfies nothing.\<close>

definition semver_satisfies :: "string \<Rightarrow> string \<Rightarrow> bool option" where
  "semver_satisfies v rng =
     (case parseComparator rng of
        None \<Rightarrow> None
      | Some c \<Rightarrow> Some (case parseSemVer v of None \<Rightarrow> False | Some x \<Rightarrow> testSet c x))"

subsection \<open>\<open>filterTagsBySemver\<close> and \<open>getLatestPatchPerMinor\<close>\<close>

text \<open>\<open>None\<close> where the range is outside the modelled comparators.\<close>

definition filterTagsBySemver :: "string list \<Rightarrow> string \<Rightarrow> (js_error + VersionEntry list) option" where
  "filterTagsBySemver tags minVersion =
     (case parseComparator minVersion of
        None \<Rightarrow> None
      | Some c \<Rightarrow>
          Some (case getAllValidVersions tags of
                  Inl e \<Rightarrow> Inl e
                | Inr validVersions \<Rightarrow>
                    Inr (filter (\<lambda>e. semver_satisfies (version e) minVersion = Some True)
                           validVersions)))"

text \<open>The key \<open>`${parsed.major}.${parsed.minor}`\<close>.\<close>

definition minorKey :: "SemVer \<Rightarrow> string" where
  "minorKey parsed = showNat (major parsed) @ ''.'' @ showNat (minor parsed)"

text \<open>
  The \<open>for\<close> loop of \<open>getLatestPatchPerMinor\<close>, with its two variables: the map \<open>seen\<close>
  and the array \<open>result\<close>. \<open>semver.parse\<close> gives \<open>null\<close> on an invalid version, and the
  loop goes on to the next entry.
\<close>

fun latestLoop :: "(string \<rightharpoonup> bool) \<Rightarrow> VersionEntry list \<Rightarrow> VersionEntry list \<Rightarrow> VersionEntry list" where
  "latestLoop seen result [] = result"
| "latestLoop seen result (e # es) =
     (case parseSemVer (version e) of
        None \<Rightarrow> latestLoop seen result es
      | Some parsed \<Rightarrow>
          if seen (minorKey parsed) = None
          then latestLoop (seen(minorKey parsed \<mapsto> True)) (result @ [e]) es
          else latestLoop seen result es)"

definition getLatestPatchPerMinor :: "VersionEntry list \<Rightarrow> VersionEntry list" where
  "getLatestPatchPerMinor versions = latestLoop Map.empty [] versions"

text \<open>The \<open>(major, minor)\<close> pair of an entry, where its version parses.\<close>

definition minorOf :: "VersionEntry \<Rightarrow> (nat \<times> nat) option" where
  "minorOf e = map_option (\<lambda>p. (major p, minor p)) (parseSemVer (version e))"

section \<open>The build orchestrator (build script)\<close>

text \<open>
  What a spawned child process ends with, as the promise sees it: the first of the
  events \<open>close\<close> (with the exit code, \<open>null\<close> after a signal) and \<open>error\<close> (with the
  error's message). A process that never ends is outside the model: the promise is
  then never resolved, and the script waits.
\<close>

datatype child_outcome = Close "int option" | Error string

record BuildResult =
  res_version :: string
  imageTag :: string
  success :: bool
  error :: "string option"

definition IMAGE_NAME :: string where
  "IMAGE_NAME = ''benallfree/meshtastic-docker''"

text \<open>\<open>`v${version}-${buildNum}`\<close> and \<open>`${IMAGE_NAME}:${imageTag}`\<close>\<close>

definition imageTagOf :: "string \<Rightarrow> nat \<Rightarrow> string" where
  "imageTagOf v buildNum = ''v'' @ v @ ''-'' @ showNat buildNum"

definition fullTag :: "string \<Rightarrow> nat \<Rightarrow> string" where
  "fullTag v buildNum = IMAGE_NAME @ '':'' @ imageTagOf v buildNum"

text \<open>A string or \<open>null\<close> in a condition.\<close>

definition truthy :: "string option \<Rightarrow> bool" where
  "truthy s = (case s of None \<Rightarrow> False | Some t \<Rightarrow> t \<noteq> [])"

text \<open>The arguments \<open>buildImage\<close> passes to the container runtime.\<close>

definition dockerArgs :: "string \<Rightarrow> string \<Rightarrow> nat \<Rightarrow> string \<Rightarrow> string option \<Rightarrow> string list" where
  "dockerArgs t v buildNum cacheBust cacheCleanup =
     [''build'', ''--build-arg'', ''MESHTASTIC_VERSION='' @ t, ''--build-arg'', ''CACHE_BUST='' @ cacheBust]
     @ (if truthy cacheCleanup then [''--build-arg'', ''CACHE_CLEANUP='' @ the cacheCleanup] else [])
     @ [''-t'', fullTag v buildNum, ''.'']"

text \<open>\<open>`Exit code: ${code}`\<close>\<close>

definition exitCodeText :: "int option \<Rightarrow> string" where
  "exitCodeText code = ''Exit code: '' @ (case code of None \<Rightarrow> ''null'' | Some c \<Rightarrow> showInt c)"

text \<open>The handlers of \<open>close\<close> and \<open>error\<close>: what the promise of \<open>buildImage\<close> resolves to.\<close>

fun onOutcome :: "string \<Rightarrow> string \<Rightarrow> child_outcome \<Rightarrow> BuildResult" where
  "onOutcome v it (Close code) =
     (if code = Some 0
      then \<lparr>res_version = v, imageTag = it, success = True, error = None\<rparr>
      else \<lparr>res_version = v, imageTag = it, success = False, error = Some (exitCodeText code)\<rparr>)"
| "onOutcome v it (Error message) =
     \<lparr>res_version = v, imageTag = it, success = False, error = Some message\<rparr>"

text \<open>
  The container runtime is the environment: \<open>run n args\<close> is how the process spawned
  with \<open>args\<close>, after \<open>n\<close> earlier ones, ends. The state is the list of the argument
  vectors spawned so far. (Relaying the child's output is not modelled.)
\<close>

definition buildImage ::
  "(nat \<Rightarrow> string list \<Rightarrow> child_outcome) \<Rightarrow> string list list \<Rightarrow> string \<Rightarrow> string \<Rightarrow> nat \<Rightarrow> string \<Rightarrow>
   string option \<Rightarrow> BuildResult \<times> string list list" where
  "buildImage run spawned t v buildNum cacheBust cacheCleanup =
     (let args = dockerArgs t v buildNum cacheBust cacheCleanup in
      (onOutcome v (imageTagOf v buildNum) (run (length spawned) args), spawned @ [args]))"

text \<open>The \<open>for\<close> loop of \<open>buildSequentially\<close>, with the array \<open>results\<close>.\<close>

fun buildLoop ::
  "(nat \<Rightarrow> string list \<Rightarrow> child_outcome) \<Rightarrow> nat \<Rightarrow> string \<Rightarrow> string option \<Rightarrow> BuildResult list \<Rightarrow>
   string list list \<Rightarrow> VersionEntry list \<Rightarrow> BuildResult list \<times> string list list" where
  "buildLoop run buildNum cacheBust cacheCleanup results spawned [] = (results, spawned)"
| "buildLoop run buildNum cacheBust cacheCleanup results spawned (e # es) =
     (case buildImage run spawned (tag e) (version e) buildNum cacheBust cacheCleanup of
        (result, spawned') \<Rightarrow>
          buildLoop run buildNum cacheBust cacheCleanup (results @ [result]) spawned' es)"

definition buildSequentially ::
  "(nat \<Rightarrow> string list \<Rightarrow> child_outcome) \<Rightarrow> VersionEntry list \<Rightarrow> nat \<Rightarrow> string \<Rightarrow> string option \<Rightarrow>
   BuildResult list \<times> string list list" where
  "buildSequentially run versions buildNum cacheBust cacheCleanup =
     buildLoop run buildNum cacheBust cacheCleanup [] [] versions"

section \<open>The image locator (shell script)\<close>

record ImageRef =
  image :: string
  img_version :: string
  buildNum :: nat

definition IMAGE_PREFIX :: string where
  "IMAGE_PREFIX = ''meshtastic-docker:v''"

text \<open>
  \<open>-(\d+)$\<close> against all that is left of the line: the build number. \<open>parseInt\<close> gives a
  double; the model keeps the exact number, which is the same below \<open>2^53\<close>.
\<close>

definition finalBuild :: "string \<Rightarrow> nat option" where
  "finalBuild s =
     (case s of
        [] \<Rightarrow> None
      | d # ds \<Rightarrow> if d = CHR ''-'' \<and> ds \<noteq> [] \<and> list_all isDigit ds then Some (parseDigits ds) else None)"

text \<open>
  The optional group \<open>(?:-[a-zA-Z0-9.-]+)?\<close> before \<open>-(\d+)$\<close>: the engine tries the
  longest run of the class first and gives characters back one at a time; \<open>k\<close> is the
  length tried. The result is the text of the run and the build number.
\<close>

fun backtrackPre :: "nat \<Rightarrow> string \<Rightarrow> (string \<times> nat) option" where
  "backtrackPre 0 body = None"
| "backtrackPre (Suc k) body =
     (case finalBuild (drop (Suc k) body) of
        Some b \<Rightarrow> Some (take (Suc k) body, b)
      | None \<Rightarrow> backtrackPre k body)"

text \<open>
  \<open>line.match(/^meshtastic-docker:v(\d+\.\d+\.\d+(?:-[a-zA-Z0-9.-]+)?)-(\d+)$/)\<close> and the
  object built from the match; \<open>None\<close> is \<open>null\<close>.
\<close>

definition matchImageLine :: "string \<Rightarrow> ImageRef option" where
  "matchImageLine line =
     (if take (length IMAGE_PREFIX) line \<noteq> IMAGE_PREFIX then None
      else case matchCore (drop (length IMAGE_PREFIX) line) of
        None \<Rightarrow> None
      | Some (core, rest) \<Rightarrow>
          (case rest of
             [] \<Rightarrow> None
           | d # body \<Rightarrow>
               if d \<noteq> CHR ''-'' then None
               else case backtrackPre (length (takeWhile isPreChar body)) body of
                 Some (p, b) \<Rightarrow> Some \<lparr>image = line, img_version = core @ ''-'' @ p, buildNum = b\<rparr>
               | None \<Rightarrow>
                   (case finalBuild rest of
                      None \<Rightarrow> None
                    | Some b \<Rightarrow> Some \<lparr>image = line, img_version = core, buildNum = b\<rparr>)))"

text \<open>The lines of the listing that are not blank, matched; lines that do not match are dropped.\<close>

definition listImages :: "string \<Rightarrow> ImageRef list" where
  "listImages stdout =
     List.map_filter matchImageLine (filter (\<lambda>line. trim line \<noteq> []) (splitOn (CHR 0x0A) stdout))"

text \<open>The comparator of the sort: newest version first, then highest build number.\<close>

definition imageDesc :: "ImageRef \<Rightarrow> ImageRef \<Rightarrow> js_error + int" where
  "imageDesc a b =
     (case semver_compare (img_version b) (img_version a) of
        Inl e \<Rightarrow> Inl e
      | Inr versionCompare \<Rightarrow>
          if versionCompare \<noteq> 0 then Inr versionCompare
          else Inr (int (buildNum b) - int (buildNum a)))"

text \<open>
  The \<open>try\<close> block of \<open>findImageForVersion\<close>. The listing is what \<open>execAsync\<close> gave: an
  error, or the standard output of the container runtime.
\<close>

definition findImageForVersion_try :: "js_error + string \<Rightarrow> string option \<Rightarrow> js_error + string option" where
  "findImageForVersion_try listing v =
     (case listing of
        Inl e \<Rightarrow> Inl e
      | Inr stdout \<Rightarrow>
          (case js_sort imageDesc (listImages stdout) of
             Inl e \<Rightarrow> Inl e
           | Inr images \<Rightarrow>
               if truthy v
               then Inr (case find (\<lambda>img. img_version img = the v) images of
                           None \<Rightarrow> None
                         | Some matching \<Rightarrow> Some (image matching))
               else Inr (case images of [] \<Rightarrow> None | img # _ \<Rightarrow> Some (image img))))"

text \<open>\<open>findImageForVersion\<close>: the \<open>catch\<close> turns every error into \<open>null\<close>.\<close>

definition findImageForVersion :: "js_error + string \<Rightarrow> string option \<Rightarrow> string option" where
  "findImageForVersion listing v =
     (case findImageForVersion_try listing v of Inl e \<Rightarrow> None | Inr r \<Rightarrow> r)"

section \<open>The shell launcher (shell script)\<close>

text \<open>
  What the script meets outside: its argument, the tag listing of the firmware clone,
  the image listing before and after the build command, whether the build command
  returned (\<open>execSync\<close> throws when it fails), and how the container started on an image
  ends.
\<close>

record shell_env =
  argv2 :: "string option"
  git_tags :: "js_error + string"
  images_before :: "js_error + string"
  build_returns :: bool
  images_after :: "js_error + string"
  container :: "string \<Rightarrow> child_outcome"

text \<open>\<open>fetchTags\<close>: the lines of the listing that are not blank; a failure is thrown on.\<close>

definition fetchTags :: "js_error + string \<Rightarrow> js_error + string list" where
  "fetchTags listing =
     (case listing of
        Inl e \<Rightarrow> Inl e
      | Inr stdout \<Rightarrow> Inr (filter (\<lambda>t. trim t \<noteq> []) (splitOn (CHR 0x0A) stdout)))"

text \<open>\<open>getLatestTag\<close> of the shell script: the first valid version, or \<open>null\<close>.\<close>

definition getLatestTag :: "string list \<Rightarrow> js_error + VersionEntry option" where
  "getLatestTag tags =
     (case getAllValidVersions tags of
        Inl e \<Rightarrow> Inl e
      | Inr validVersions \<Rightarrow> Inr (case validVersions of [] \<Rightarrow> None | v # _ \<Rightarrow> Some v))"

text \<open>
  Find the image, and build it when it is missing: the image to use, or the exit code
  the script ends with. An exception leaves \<open>main\<close> and the script exits with 1.
\<close>

definition findOrBuild :: "shell_env \<Rightarrow> string \<Rightarrow> int + string" where
  "findOrBuild env v =
     (case findImageForVersion (images_before env) (Some v) of
        Some img \<Rightarrow> Inr img
      | None \<Rightarrow>
          if \<not> build_returns env then Inl 1
          else (case findImageForVersion (images_after env) (Some v) of
                  Some img \<Rightarrow> Inr img
                | None \<Rightarrow> Inl 1))"

definition resolveImage :: "shell_env \<Rightarrow> int + string" where
  "resolveImage env =
     (if truthy (argv2 env) then findOrBuild env (the (argv2 env))
      else case fetchTags (git_tags env) of
        Inl e \<Rightarrow> Inl 1
      | Inr tags \<Rightarrow>
          (case getLatestTag tags of
             Inl e \<Rightarrow> Inl 1
           | Inr None \<Rightarrow> Inl 1
           | Inr (Some latest) \<Rightarrow> findOrBuild env (version latest)))"

text \<open>The handlers of the container process: \<open>process.exit(code || 0)\<close> and \<open>process.exit(1)\<close>.\<close>

fun onShellOutcome :: "child_outcome \<Rightarrow> int" where
  "onShellOutcome (Close code) = (case code of None \<Rightarrow> 0 | Some c \<Rightarrow> if c = 0 then 0 else c)"
| "onShellOutcome (Error message) = 1"

text \<open>\<open>main\<close> of the shell script: the exit code of the command.\<close>

definition main :: "shell_env \<Rightarrow> int" where
  "main env =
     (case resolveImage env of
        Inl code \<Rightarrow> code
      | Inr imageToUse \<Rightarrow> onShellOutcome (container env imageToUse))"

section \<open>Notions used in the proofs\<close>

text \<open>
  A comparator is consistent when swapping its arguments negates it and \<open>\<le> 0\<close> is
  transitive; \<open>lexCmp\<close> is \<open>f || g\<close>. \<open>insertBy\<close> and \<open>sortBy\<close> are the sort with a
  comparator that does not throw.
\<close>

definition cmp_ok :: "('a \<Rightarrow> 'a \<Rightarrow> int) \<Rightarrow> bool" where
  "cmp_ok f = ((\<forall>a b. f a b = - f b a) \<and> (\<forall>a b c. f a b \<le> 0 \<longrightarrow> f b c \<le> 0 \<longrightarrow> f a c \<le> 0))"

definition lexCmp :: "('a \<Rightarrow> 'a \<Rightarrow> int) \<Rightarrow> ('a \<Rightarrow> 'a \<Rightarrow> int) \<Rightarrow> 'a \<Rightarrow> 'a \<Rightarrow> int" where
  "lexCmp f g a b = (if f a b \<noteq> 0 then f a b else g a b)"

definition preCmp :: "ident list \<Rightarrow> ident list \<Rightarrow> int" where
  "preCmp p q =
     (if p \<noteq> [] \<and> q = [] then - 1
      else if p = [] \<and> q \<noteq> [] then 1
      else if p = [] \<and> q = [] then 0
      else comparePreLoop p q)"

fun insertBy :: "('a \<Rightarrow> 'a \<Rightarrow> int) \<Rightarrow> 'a \<Rightarrow> 'a list \<Rightarrow> 'a list" where
  "insertBy f x [] = [x]"
| "insertBy f x (y # ys) = (if f x y \<le> 0 then x # y # ys else y # insertBy f x ys)"

fun sortBy :: "('a \<Rightarrow> 'a \<Rightarrow> int) \<Rightarrow> 'a list \<Rightarrow> 'a list" where
  "sortBy f [] = []"
| "sortBy f (x # xs) = insertBy f x (sortBy f xs)"

definition descCmp :: "VersionEntry \<Rightarrow> VersionEntry \<Rightarrow> int" where
  "descCmp a b = SemVer_compare (the (parseSemVer (version b))) (the (parseSemVer (version a)))"

definition candidates :: "string list \<Rightarrow> VersionEntry list" where
  "candidates tags = filter (\<lambda>e. semver_valid (version e)) (map toEntry tags)"

text \<open>The arguments and the result of the build of one plan entry, the \<open>i\<close>-th process spawned.\<close>

definition argsOf :: "nat \<Rightarrow> string \<Rightarrow> string option \<Rightarrow> VersionEntry \<Rightarrow> string list" where
  "argsOf bnum cacheBust cacheCleanup e = dockerArgs (tag e) (version e) bnum cacheBust cacheCleanup"

definition resultAt ::
  "(nat \<Rightarrow> string list \<Rightarrow> child_outcome) \<Rightarrow> nat \<Rightarrow> string \<Rightarrow> string option \<Rightarrow> nat \<Rightarrow> VersionEntry \<Rightarrow> BuildResult" where
  "resultAt run bnum cacheBust cacheCleanup i e =
     onOutcome (version e) (imageTagOf (version e) bnum) (run i (argsOf bnum cacheBust cacheCleanup e))"

text \<open>
  The loop of \<open>getLatestPatchPerMinor\<close> by the set of the keys seen: \<open>keyOf\<close> is the key of
  an entry, where its version parses.
\<close>

definition keyOf :: "VersionEntry \<Rightarrow> string option" where
  "keyOf e = map_option minorKey (parseSemVer (version e))"

fun collapse :: "string set \<Rightarrow> VersionEntry list \<Rightarrow> VersionEntry list" where
  "collapse S [] = []"
| "collapse S (e # es) =
     (case keyOf e of
        None \<Rightarrow> collapse S es
      | Some k \<Rightarrow> if k \<in> S then collapse S es else e # collapse (insert k S) es)"

text \<open>The comparator of the image sort on valid versions.\<close>

definition imgCmp :: "ImageRef \<Rightarrow> ImageRef \<Rightarrow> int" where
  "imgCmp =
     lexCmp (\<lambda>a b. SemVer_compare (the (parseSemVer (img_version b))) (the (parseSemVer (img_version a))))
       (\<lambda>a b. int (buildNum b) - int (buildNum a))"

section \<open>Comparators and the sort\<close>

lemma cmp_okI:
  assumes "\<And>a b. f a b = - f b a"
    and "\<And>a b c. f a b \<le> 0 \<Longrightarrow> f b c \<le> 0 \<Longrightarrow> f a c \<le> 0"
  shows "cmp_ok f"
  using assms unfolding cmp_ok_def by blast

lemma cmp_ok_sym: "cmp_ok f \<Longrightarrow> f a b = - f b a"
  unfolding cmp_ok_def by blast

lemma cmp_ok_trans: "cmp_ok f \<Longrightarrow> f a b \<le> 0 \<Longrightarrow> f b c \<le> 0 \<Longrightarrow> f a c \<le> 0"
  unfolding cmp_ok_def by blast

lemma cmp_ok_refl: "cmp_ok f \<Longrightarrow> f a a = 0"
  using cmp_ok_sym [of f a a] by simp

lemma cmp_ok_strict1:
  assumes "cmp_ok f" "f a b < 0" "f b c \<le> 0"
  shows "f a c < 0"
proof (rule ccontr)
  assume "\<not> f a c < 0"
  then have "f c a \<le> 0" using cmp_ok_sym [OF assms(1), of c a] by simp
  with assms(3) have "f b a \<le> 0" using cmp_ok_trans [OF assms(1)] by blast
  then show False using assms(2) cmp_ok_sym [OF assms(1), of a b] by simp
qed

lemma cmp_ok_strict2:
  assumes "cmp_ok f" "f a b \<le> 0" "f b c < 0"
  shows "f a c < 0"
proof (rule ccontr)
  assume "\<not> f a c < 0"
  then have "f c a \<le> 0" using cmp_ok_sym [OF assms(1), of c a] by simp
  with assms(2) have "f c b \<le> 0" using cmp_ok_trans [OF assms(1)] by blast
  then show False using assms(3) cmp_ok_sym [OF assms(1), of b c] by simp
qed

lemma cmp_ok_lex:
  assumes f: "cmp_ok f" and g: "cmp_ok g"
  shows "cmp_ok (lexCmp f g)"
proof (rule cmp_okI)
  fix a b
  show "lexCmp f g a b = - lexCmp f g b a"
    using cmp_ok_sym [OF f, of a b] cmp_ok_sym [OF g, of a b] by (simp add: lexCmp_def)
next
  fix a b c
  assume ab: "lexCmp f g a b \<le> 0" and bc: "lexCmp f g b c \<le> 0"
  have fab: "f a b \<le> 0" using ab by (simp add: lexCmp_def split: if_splits)
  have fbc: "f b c \<le> 0" using bc by (simp add: lexCmp_def split: if_splits)
  show "lexCmp f g a c \<le> 0"
  proof (cases "f a b < 0 \<or> f b c < 0")
    case True
    then have "f a c < 0"
      using cmp_ok_strict1 [OF f, of a b c] cmp_ok_strict2 [OF f, of a b c] fab fbc by blast
    then show ?thesis by (simp add: lexCmp_def)
  next
    case False
    then have z: "f a b = 0" "f b c = 0" using fab fbc by auto
    then have gab: "g a b \<le> 0" and gbc: "g b c \<le> 0" using ab bc by (simp_all add: lexCmp_def)
    have "f a c \<le> 0" using cmp_ok_trans [OF f fab fbc] .
    moreover have "g a c \<le> 0" using cmp_ok_trans [OF g gab gbc] .
    ultimately show ?thesis by (simp add: lexCmp_def)
  qed
qed

lemma cmp_ok_compareNum: "cmp_ok (\<lambda>x y. compareNum (h x) (h y))"
  by (rule cmp_okI) (auto simp: compareNum_def split: if_splits)

lemma cmp_ok_compareMain: "cmp_ok compareMain"
proof -
  have eq: "compareMain = lexCmp (\<lambda>x y. compareNum (major x) (major y))
          (lexCmp (\<lambda>x y. compareNum (minor x) (minor y)) (\<lambda>x y. compareNum (patch x) (patch y)))"
    by (intro ext) (simp add: compareMain_def lexCmp_def)
  show ?thesis
    unfolding eq by (intro cmp_ok_lex cmp_ok_compareNum)
qed

lemma compareIdentifiers_sym: "compareIdentifiers a b = - compareIdentifiers b a"
  by (cases a; cases b) auto

lemma compareIdentifiers_zero: "compareIdentifiers a b = 0 \<longleftrightarrow> a = b"
  by (cases a; cases b) auto

lemma compareIdentifiers_trans:
  "compareIdentifiers a b \<le> 0 \<Longrightarrow> compareIdentifiers b c \<le> 0 \<Longrightarrow> compareIdentifiers a c \<le> 0"
  by (cases a; cases b; cases c) (auto split: if_splits)

lemma cmp_ok_compareIdentifiers: "cmp_ok compareIdentifiers"
  by (rule cmp_okI) (auto intro: compareIdentifiers_sym compareIdentifiers_trans)

lemma comparePreLoop_sym: "comparePreLoop xs ys = - comparePreLoop ys xs"
proof (induction xs ys rule: comparePreLoop.induct)
  case (4 a as b bs)
  then show ?case using compareIdentifiers_sym [of a b] by auto
qed simp_all


lemma comparePreLoop_trans:
  "comparePreLoop xs ys \<le> 0 \<Longrightarrow> comparePreLoop ys zs \<le> 0 \<Longrightarrow> comparePreLoop xs zs \<le> 0"
proof (induction xs ys arbitrary: zs rule: comparePreLoop.induct)
  case 1
  then show ?case by (cases zs) auto
next
  case (2 a as)
  then show ?case by simp
next
  case (3 b bs)
  then show ?case by (cases zs) auto
next
  case (4 a as b bs)
  show ?case
  proof (cases zs)
    case Nil
    with 4 show ?thesis by simp
  next
    case (Cons c cs)
    show ?thesis
    proof (cases "a = b")
      case True
      with 4 Cons show ?thesis by (auto split: if_splits)
    next
      case ab: False
      then have lt: "compareIdentifiers a b < 0"
        using 4(2) compareIdentifiers_zero [of a b] by (simp add: less_le)
      show ?thesis
      proof (cases "b = c")
        case True
        with 4 Cons ab show ?thesis by (auto split: if_splits)
      next
        case bc: False
        then have le: "compareIdentifiers b c \<le> 0" using 4(3) Cons by simp
        have "compareIdentifiers a c < 0"
          using cmp_ok_strict1 [OF cmp_ok_compareIdentifiers lt le] .
        then show ?thesis using Cons compareIdentifiers_zero [of a c] by auto
      qed
    qed
  qed
qed

lemma comparePre_preCmp: "comparePre x y = preCmp (prerelease x) (prerelease y)"
  by (simp add: comparePre_def preCmp_def)

lemma preCmp_sym: "preCmp p q = - preCmp q p"
  using comparePreLoop_sym [of p q] by (auto simp: preCmp_def)


lemma preCmp_trans: "preCmp p q \<le> 0 \<Longrightarrow> preCmp q r \<le> 0 \<Longrightarrow> preCmp p r \<le> 0"
  using comparePreLoop_trans [of p q r]
  by (auto simp: preCmp_def split: if_splits)

lemma cmp_ok_comparePre: "cmp_ok comparePre"
  by (rule cmp_okI) (auto simp: comparePre_preCmp intro: preCmp_sym preCmp_trans)

lemma SemVer_compare_lex: "SemVer_compare = lexCmp compareMain comparePre"
  by (intro ext) (simp add: SemVer_compare_def lexCmp_def)

lemma cmp_ok_SemVer_compare: "cmp_ok SemVer_compare"
  by (simp add: SemVer_compare_lex cmp_ok_lex cmp_ok_compareMain cmp_ok_comparePre)



lemma mset_insertBy: "mset (insertBy f x ys) = add_mset x (mset ys)"
  by (induction ys) auto

lemma mset_sortBy: "mset (sortBy f xs) = mset xs"
  by (induction xs) (auto simp: mset_insertBy)

lemma set_insertBy: "set (insertBy f x ys) = insert x (set ys)"
  by (induction ys) auto

lemma set_sortBy: "set (sortBy f xs) = set xs"
  by (induction xs) (auto simp: set_insertBy)

lemma js_insert_pure:
  "(\<And>y. y \<in> set ys \<Longrightarrow> cmp x y = Inr (f x y)) \<Longrightarrow> js_insert cmp x ys = Inr (insertBy f x ys)"
  by (induction ys) auto

lemma js_sort_pure:
  "(\<And>x y. x \<in> set xs \<Longrightarrow> y \<in> set xs \<Longrightarrow> cmp x y = Inr (f x y)) \<Longrightarrow>
   js_sort cmp xs = Inr (sortBy f xs)"
proof (induction xs)
  case Nil
  then show ?case by simp
next
  case (Cons x xs)
  have "js_sort cmp xs = Inr (sortBy f xs)"
    using Cons by simp
  moreover have "js_insert cmp x (sortBy f xs) = Inr (insertBy f x (sortBy f xs))"
    by (rule js_insert_pure) (simp add: set_sortBy Cons.prems)
  ultimately show ?case by simp
qed

lemma sorted_insertBy:
  assumes "cmp_ok f" and "sorted_wrt (\<lambda>a b. f a b \<le> 0) ys"
  shows "sorted_wrt (\<lambda>a b. f a b \<le> 0) (insertBy f x ys)"
  using assms(2)
proof (induction ys)
  case Nil
  then show ?case by simp
next
  case (Cons y ys)
  show ?case
  proof (cases "f x y \<le> 0")
    case True
    have "\<forall>z \<in> set ys. f x z \<le> 0"
      using Cons.prems True cmp_ok_trans [OF assms(1)] by auto
    with True Cons.prems show ?thesis by simp
  next
    case False
    then have "f y x \<le> 0" using cmp_ok_sym [OF assms(1), of y x] by simp
    with False Cons show ?thesis by (auto simp: set_insertBy)
  qed
qed

lemma sorted_sortBy: "cmp_ok f \<Longrightarrow> sorted_wrt (\<lambda>a b. f a b \<le> 0) (sortBy f xs)"
  by (induction xs) (auto intro: sorted_insertBy)



lemma cmp_ok_descCmp: "cmp_ok descCmp"
proof (rule cmp_okI)
  fix a b
  show "descCmp a b = - descCmp b a"
    unfolding descCmp_def by (rule cmp_ok_sym [OF cmp_ok_SemVer_compare])
next
  fix a b c
  assume "descCmp a b \<le> 0" "descCmp b c \<le> 0"
  then show "descCmp a c \<le> 0"
    unfolding descCmp_def using cmp_ok_trans [OF cmp_ok_SemVer_compare] by blast
qed

lemma versionDesc_valid:
  "semver_valid (version a) \<Longrightarrow> semver_valid (version b) \<Longrightarrow> versionDesc a b = Inr (descCmp a b)"
  by (auto simp: semver_valid_def versionDesc_def semver_compare_def descCmp_def)

lemma getAllValidVersions_sortBy:
  "getAllValidVersions tags = Inr (sortBy descCmp (candidates tags))"
  unfolding getAllValidVersions_def candidates_def
  by (rule js_sort_pure) (auto intro: versionDesc_valid)

lemma descCmp_gte:
  "semver_valid (version a) \<Longrightarrow> semver_valid (version b) \<Longrightarrow> descCmp a b \<le> 0 \<Longrightarrow>
   semver_gte (version a) (version b)"
  using cmp_ok_sym [OF cmp_ok_SemVer_compare, of "the (parseSemVer (version a))" "the (parseSemVer (version b))"]
  by (auto simp: semver_valid_def semver_gte_def semver_compare_def descCmp_def)

section \<open>The version catalog\<close>

text \<open>
  C3, as the code has it: for every list of raw tags whose extracted versions have
  their numeric prerelease identifiers below \<open>2^53\<close>, where the package compares them
  exactly, \<open>getAllValidVersions\<close> returns (the comparator never throws), its output is
  sorted descending by semantic-version precedence, where equal versions may follow
  each other; every entry's version is the one extracted from its tag and is a valid
  semantic version; and the tags of the output are exactly the input tags whose
  extracted version is valid, the others are dropped.
\<close>

theorem getAllValidVersions_sorted_valid:
  assumes "list_all (\<lambda>t. exactVersion (extractVersion t)) tags"
  shows "\<exists>out. getAllValidVersions tags = Inr out
    \<and> sorted_wrt (\<lambda>a b. semver_gte (version a) (version b)) out
    \<and> list_all (\<lambda>e. semver_valid (version e) \<and> version e = extractVersion (tag e)) out
    \<and> mset (map tag out) = mset (filter (\<lambda>t. semver_valid (extractVersion t)) tags)"
proof -
  let ?out = "sortBy descCmp (candidates tags)"
  have valid: "\<And>e. e \<in> set ?out \<Longrightarrow> semver_valid (version e)"
    by (auto simp: set_sortBy candidates_def)
  have extr: "\<And>e. e \<in> set ?out \<Longrightarrow> version e = extractVersion (tag e)"
    by (auto simp: set_sortBy candidates_def toEntry_def)
  have "sorted_wrt (\<lambda>a b. descCmp a b \<le> 0) ?out"
    by (rule sorted_sortBy [OF cmp_ok_descCmp])
  then have s: "sorted_wrt (\<lambda>a b. semver_gte (version a) (version b)) ?out"
    by (rule sorted_wrt_mono_rel [rotated]) (blast intro: valid descCmp_gte)
  have "mset (map tag ?out) = mset (map tag (candidates tags))"
    by (simp add: mset_sortBy)
  also have "map tag (candidates tags) = filter (\<lambda>t. semver_valid (extractVersion t)) tags"
    by (induction tags) (auto simp: candidates_def toEntry_def)
  finally have m: "mset (map tag ?out) = mset (filter (\<lambda>t. semver_valid (extractVersion t)) tags)" .
  show ?thesis
    using getAllValidVersions_sortBy [of tags] s valid extr m
    by (simp add: list_all_iff)
qed

text \<open>
  The tags \<open>v2.7.16\<close>, \<open>v2.7.0-rc.2\<close>, \<open>v2.7.0-rc.10\<close> and \<open>notaversion\<close>: the release
  comes first, then the release candidate 10 before the release candidate 2, and the
  last tag is dropped.
\<close>

theorem getAllValidVersions_sorted_valid_witness:
  "list_all (\<lambda>t. exactVersion (extractVersion t))
     [''v2.7.16'', ''v2.7.0-rc.2'', ''v2.7.0-rc.10'', ''notaversion'']
   \<and> getAllValidVersions [''v2.7.16'', ''v2.7.0-rc.2'', ''v2.7.0-rc.10'', ''notaversion'']
     = Inr [\<lparr>tag = ''v2.7.16'', version = ''2.7.16''\<rparr>,
            \<lparr>tag = ''v2.7.0-rc.10'', version = ''2.7.0-rc.10''\<rparr>,
            \<lparr>tag = ''v2.7.0-rc.2'', version = ''2.7.0-rc.2''\<rparr>]
   \<and> sorted_wrt (\<lambda>a b. semver_gte (version a) (version b))
       [\<lparr>tag = ''v2.7.16'', version = ''2.7.16''\<rparr>,
        \<lparr>tag = ''v2.7.0-rc.10'', version = ''2.7.0-rc.10''\<rparr>,
        \<lparr>tag = ''v2.7.0-rc.2'', version = ''2.7.0-rc.2''\<rparr>]"
proof -
  let ?tags = "[''v2.7.16'', ''v2.7.0-rc.2'', ''v2.7.0-rc.10'', ''notaversion'']"
  let ?out = "[\<lparr>tag = ''v2.7.16'', version = ''2.7.16''\<rparr>,
        \<lparr>tag = ''v2.7.0-rc.10'', version = ''2.7.0-rc.10''\<rparr>,
        \<lparr>tag = ''v2.7.0-rc.2'', version = ''2.7.0-rc.2''\<rparr>]"
  have h: "list_all (\<lambda>t. exactVersion (extractVersion t)) ?tags"
    by code_simp
  have e: "getAllValidVersions ?tags = Inr ?out"
    by code_simp
  from getAllValidVersions_sorted_valid [OF h] obtain out
    where "getAllValidVersions ?tags = Inr out"
      and "sorted_wrt (\<lambda>a b. semver_gte (version a) (version b)) out"
    by blast
  with e have "sorted_wrt (\<lambda>a b. semver_gte (version a) (version b)) ?out"
    by simp
  with h e show ?thesis by blast
qed

text \<open>
  C3 as stated asks for a strictly descending output. The tags \<open>v1.0.0\<close> and \<open>1.0.0\<close>
  both give the version \<open>1.0.0\<close>; both entries are kept, and the first is not strictly
  above the second.
\<close>

theorem getAllValidVersions_not_strict:
  "getAllValidVersions [''v1.0.0'', ''1.0.0'']
     = Inr [\<lparr>tag = ''v1.0.0'', version = ''1.0.0''\<rparr>, \<lparr>tag = ''1.0.0'', version = ''1.0.0''\<rparr>]
   \<and> \<not> sorted_wrt (\<lambda>a b. semver_gt (version a) (version b))
         [\<lparr>tag = ''v1.0.0'', version = ''1.0.0''\<rparr>, \<lparr>tag = ''1.0.0'', version = ''1.0.0''\<rparr>]"
  by code_simp


section \<open>The version selector\<close>

lemma digitVal_digitChar: "d < 10 \<Longrightarrow> digitVal (digitChar d) = d"
proof -
  assume "d < 10"
  then have "d \<in> {0, 1, 2, 3, 4, 5, 6, 7, 8, 9}" by auto
  then show ?thesis by (auto simp: digitVal_def digitChar_def)
qed

lemma isDigit_digitChar: "d < 10 \<Longrightarrow> isDigit (digitChar d)"
proof -
  assume "d < 10"
  then have "d \<in> {0, 1, 2, 3, 4, 5, 6, 7, 8, 9}" by auto
  then show ?thesis by (auto simp: isDigit_def digitChar_def)
qed

lemma parseDigits_snoc: "parseDigits (ds @ [c]) = 10 * parseDigits ds + digitVal c"
  by (simp add: parseDigits_def)

lemma parseDigits_showNat: "parseDigits (showNat n) = n"
proof (induction n rule: showNat.induct)
  case (1 n)
  show ?case
  proof (cases "n < 10")
    case True
    then show ?thesis
      using parseDigits_snoc [of "[]" "digitChar n"]
      by (simp add: showNat.simps [of n] digitVal_digitChar parseDigits_def)
  next
    case False
    then have "parseDigits (showNat (n div 10)) = n div 10" using 1 by simp
    with False show ?thesis
      by (simp add: showNat.simps [of n] parseDigits_snoc digitVal_digitChar)
  qed
qed

lemma showNat_digits: "list_all isDigit (showNat n)"
proof (induction n rule: showNat.induct)
  case (1 n)
  show ?case
  proof (cases "n < 10")
    case True
    then show ?thesis by (simp add: showNat.simps [of n] isDigit_digitChar)
  next
    case False
    with 1 show ?thesis by (simp add: showNat.simps [of n] isDigit_digitChar)
  qed
qed

lemma showNat_inj: "showNat a = showNat b \<Longrightarrow> a = b"
  by (metis parseDigits_showNat)

lemma showNat_no_dot: "CHR ''.'' \<notin> set (showNat n)"
  using showNat_digits [of n] by (auto simp: list_all_iff isDigit_def)

lemma dotted_eq:
  assumes "x @ ''.'' @ y = x' @ ''.'' @ y'" and "CHR ''.'' \<notin> set x" and "CHR ''.'' \<notin> set x'"
  shows "x = x' \<and> y = y'"
proof -
  have "takeWhile (\<lambda>c. c \<noteq> CHR ''.'') (x @ ''.'' @ y) = x"
    using assms(2) by (induction x) auto
  moreover have "takeWhile (\<lambda>c. c \<noteq> CHR ''.'') (x' @ ''.'' @ y') = x'"
    using assms(3) by (induction x') auto
  ultimately have "x = x'" using assms(1) by simp
  with assms(1) show ?thesis by simp
qed

lemma minorKey_eq: "minorKey p = minorKey q \<longleftrightarrow> major p = major q \<and> minor p = minor q"
proof
  assume "minorKey p = minorKey q"
  then have "showNat (major p) = showNat (major q) \<and> showNat (minor p) = showNat (minor q)"
    unfolding minorKey_def by (rule dotted_eq) (rule showNat_no_dot)+
  then show "major p = major q \<and> minor p = minor q" by (simp add: showNat_inj)
next
  assume "major p = major q \<and> minor p = minor q"
  then show "minorKey p = minorKey q" by (simp add: minorKey_def)
qed

lemma keyOf_eq: "keyOf a = keyOf b \<longleftrightarrow> minorOf a = minorOf b"
  by (cases "parseSemVer (version a)"; cases "parseSemVer (version b)")
     (simp_all add: keyOf_def minorOf_def minorKey_eq)

lemma dom_upd_if: "dom (\<lambda>a. if a = k then Some v else m a) = insert k (dom m)"
  by (auto split: if_splits)

lemma latestLoop_collapse: "latestLoop seen result es = result @ collapse (dom seen) es"
proof (induction es arbitrary: seen result)
  case Nil
  then show ?case by simp
next
  case (Cons e es)
  show ?case
  proof (cases "parseSemVer (version e)")
    case None
    then show ?thesis by (simp add: Cons.IH keyOf_def)
  next
    case (Some p)
    have "minorKey p \<in> dom seen \<longleftrightarrow> seen (minorKey p) \<noteq> None"
      by (simp add: domIff)
    with Some show ?thesis
      by (simp add: Cons.IH keyOf_def dom_upd_if)
  qed
qed

lemma getLatestPatchPerMinor_collapse: "getLatestPatchPerMinor versions = collapse {} versions"
  by (simp add: getLatestPatchPerMinor_def latestLoop_collapse)

lemma collapse_subseq: "subseq (collapse S es) es"
  by (induction es arbitrary: S) (auto split: option.splits)

lemma collapse_set: "set (collapse S es) \<subseteq> set es"
  by (induction es arbitrary: S) (auto split: option.splits if_splits)

lemma collapse_key: "x \<in> set (collapse S es) \<Longrightarrow> \<exists>k. keyOf x = Some k \<and> k \<notin> S"
  by (induction es arbitrary: S) (auto split: option.splits if_splits)

lemma collapse_distinct: "distinct (map keyOf (collapse S es))"
proof (induction es arbitrary: S)
  case Nil
  then show ?case by simp
next
  case (Cons e es)
  show ?case
  proof (cases "keyOf e")
    case None
    then show ?thesis by (simp add: Cons.IH)
  next
    case (Some k)
    have "Some k \<notin> keyOf ` set (collapse (insert k S) es)"
      using collapse_key [of _ "insert k S" es] by force
    with Some show ?thesis by (simp add: Cons.IH)
  qed
qed

lemma collapse_first:
  "x \<in> set (collapse S es) \<Longrightarrow> \<exists>pre post. es = pre @ x # post \<and> (\<forall>e \<in> set pre. keyOf e \<noteq> keyOf x)"
proof (induction es arbitrary: S)
  case Nil
  then show ?case by simp
next
  case (Cons e es)
  show ?case
  proof (cases "x = e \<and> (\<exists>k. keyOf e = Some k \<and> k \<notin> S)")
    case True
    then have "e # es = [] @ x # es \<and> (\<forall>e' \<in> set []. keyOf e' \<noteq> keyOf x)" by simp
    then show ?thesis by blast
  next
    case False
    then obtain S' where in': "x \<in> set (collapse S' es)" and S': "keyOf e = None \<or> (\<exists>k. keyOf e = Some k \<and> k \<in> S')"
      using Cons.prems by (auto split: option.splits if_splits)
    from Cons.IH [OF in'] obtain pre post where pp: "es = pre @ x # post" "\<forall>e \<in> set pre. keyOf e \<noteq> keyOf x"
      by blast
    from collapse_key [OF in'] obtain k where k: "keyOf x = Some k" "k \<notin> S'" by blast
    have "keyOf e \<noteq> keyOf x" using S' k by auto
    with pp have "e # es = (e # pre) @ x # post \<and> (\<forall>e' \<in> set (e # pre). keyOf e' \<noteq> keyOf x)" by simp
    then show ?thesis by blast
  qed
qed

lemma collapse_covers:
  "e \<in> set es \<Longrightarrow> keyOf e = Some k \<Longrightarrow> k \<notin> S \<Longrightarrow> \<exists>x \<in> set (collapse S es). keyOf x = Some k"
proof (induction es arbitrary: S)
  case Nil
  then show ?case by simp
next
  case (Cons a es)
  show ?case
  proof (cases "keyOf a = Some k")
    case True
    with Cons.prems show ?thesis by simp
  next
    case False
    then have e: "e \<in> set es" using Cons.prems by auto
    show ?thesis
    proof (cases "keyOf a")
      case None
      then show ?thesis using Cons.IH [OF e Cons.prems(2,3)] by simp
    next
      case (Some k')
      then have "k \<notin> insert k' S" using False Cons.prems(3) by auto
      then show ?thesis
        using Cons.IH [OF e Cons.prems(2)] Cons.prems(3) Some by (cases "k' \<in> S") auto
    qed
  qed
qed

lemma semver_gte_refl: "semver_valid v \<Longrightarrow> semver_gte v v"
  by (auto simp: semver_valid_def semver_gte_def semver_compare_def
      cmp_ok_refl [OF cmp_ok_SemVer_compare])

text \<open>
  C2: on a list of valid entries sorted descending by precedence,
  \<open>getLatestPatchPerMinor\<close> returns entries with distinct \<open>(major, minor)\<close> pairs, in the
  order they have in the input, one for every pair of the input; each is the first
  entry of the input with its pair, and no entry of the input with that pair is above
  it in precedence.
\<close>

theorem getLatestPatchPerMinor_first_per_minor:
  assumes valid: "list_all (\<lambda>e. semver_valid (version e)) versions"
    and sorted: "sorted_wrt (\<lambda>a b. semver_gte (version a) (version b)) versions"
  shows "distinct (map minorOf (getLatestPatchPerMinor versions))
    \<and> subseq (getLatestPatchPerMinor versions) versions
    \<and> minorOf ` set (getLatestPatchPerMinor versions) = minorOf ` set versions
    \<and> (\<forall>x \<in> set (getLatestPatchPerMinor versions).
          (\<exists>pre post. versions = pre @ x # post \<and> (\<forall>e \<in> set pre. minorOf e \<noteq> minorOf x))
        \<and> (\<forall>e \<in> set versions. minorOf e = minorOf x \<longrightarrow> semver_gte (version x) (version e)))"
proof -
  let ?out = "collapse {} versions"
  have sub: "subseq ?out versions" by (rule collapse_subseq)
  have "distinct (map keyOf ?out)" by (rule collapse_distinct)
  then have dist: "distinct (map minorOf ?out)"
    by (simp add: distinct_map inj_on_def keyOf_eq)
  have first: "\<exists>pre post. versions = pre @ x # post \<and> (\<forall>e \<in> set pre. minorOf e \<noteq> minorOf x)"
    if "x \<in> set ?out" for x
    using collapse_first [OF that] by (simp add: keyOf_eq)
  have best: "semver_gte (version x) (version e)"
    if x: "x \<in> set ?out" and e: "e \<in> set versions" and eq: "minorOf e = minorOf x" for x e
  proof -
    from first [OF x] obtain pre post where pp: "versions = pre @ x # post"
      and np: "\<forall>e \<in> set pre. minorOf e \<noteq> minorOf x" by blast
    have "e \<notin> set pre" using np eq by blast
    then have "e = x \<or> e \<in> set post" using e pp by auto
    then show ?thesis
    proof
      assume "e = x"
      moreover have "semver_valid (version x)" using valid pp by (simp add: list_all_iff)
      ultimately show ?thesis by (simp add: semver_gte_refl)
    next
      assume "e \<in> set post"
      then show ?thesis using sorted pp by (simp add: sorted_wrt_append)
    qed
  qed
  have "set ?out \<subseteq> set versions" by (rule collapse_set)
  then have img1: "minorOf ` set ?out \<subseteq> minorOf ` set versions" by blast
  have img2: "minorOf ` set versions \<subseteq> minorOf ` set ?out"
  proof
    fix m assume "m \<in> minorOf ` set versions"
    then obtain e where e: "e \<in> set versions" "m = minorOf e" by blast
    then have "semver_valid (version e)" using valid by (simp add: list_all_iff)
    then obtain k where k: "keyOf e = Some k" by (auto simp: keyOf_def semver_valid_def)
    from collapse_covers [OF e(1) k, of "{}"] obtain x where x: "x \<in> set ?out" "keyOf x = keyOf e"
      using k by auto
    then have "m = minorOf x" using e(2) by (simp add: keyOf_eq)
    with x(1) show "m \<in> minorOf ` set ?out" by blast
  qed
  show ?thesis
    unfolding getLatestPatchPerMinor_collapse
    using dist sub img1 img2 first best by blast
qed

text \<open>
  The versions 2.7.16, 2.7.15, 2.6.1, 2.6.0 are valid and sorted; the result keeps
  2.7.16 and 2.6.1.
\<close>

theorem getLatestPatchPerMinor_first_per_minor_witness:
  "list_all (\<lambda>e. semver_valid (version e))
     [\<lparr>tag = ''v2.7.16'', version = ''2.7.16''\<rparr>, \<lparr>tag = ''v2.7.15'', version = ''2.7.15''\<rparr>,
      \<lparr>tag = ''v2.6.1'', version = ''2.6.1''\<rparr>, \<lparr>tag = ''v2.6.0'', version = ''2.6.0''\<rparr>]
   \<and> sorted_wrt (\<lambda>a b. semver_gte (version a) (version b))
     [\<lparr>tag = ''v2.7.16'', version = ''2.7.16''\<rparr>, \<lparr>tag = ''v2.7.15'', version = ''2.7.15''\<rparr>,
      \<lparr>tag = ''v2.6.1'', version = ''2.6.1''\<rparr>, \<lparr>tag = ''v2.6.0'', version = ''2.6.0''\<rparr>]
   \<and> getLatestPatchPerMinor
     [\<lparr>tag = ''v2.7.16'', version = ''2.7.16''\<rparr>, \<lparr>tag = ''v2.7.15'', version = ''2.7.15''\<rparr>,
      \<lparr>tag = ''v2.6.1'', version = ''2.6.1''\<rparr>, \<lparr>tag = ''v2.6.0'', version = ''2.6.0''\<rparr>]
     = [\<lparr>tag = ''v2.7.16'', version = ''2.7.16''\<rparr>, \<lparr>tag = ''v2.6.1'', version = ''2.6.1''\<rparr>]
   \<and> distinct (map minorOf (getLatestPatchPerMinor
     [\<lparr>tag = ''v2.7.16'', version = ''2.7.16''\<rparr>, \<lparr>tag = ''v2.7.15'', version = ''2.7.15''\<rparr>,
      \<lparr>tag = ''v2.6.1'', version = ''2.6.1''\<rparr>, \<lparr>tag = ''v2.6.0'', version = ''2.6.0''\<rparr>]))
   \<and> minorOf ` set (getLatestPatchPerMinor
     [\<lparr>tag = ''v2.7.16'', version = ''2.7.16''\<rparr>, \<lparr>tag = ''v2.7.15'', version = ''2.7.15''\<rparr>,
      \<lparr>tag = ''v2.6.1'', version = ''2.6.1''\<rparr>, \<lparr>tag = ''v2.6.0'', version = ''2.6.0''\<rparr>])
     = minorOf ` set
     [\<lparr>tag = ''v2.7.16'', version = ''2.7.16''\<rparr>, \<lparr>tag = ''v2.7.15'', version = ''2.7.15''\<rparr>,
      \<lparr>tag = ''v2.6.1'', version = ''2.6.1''\<rparr>, \<lparr>tag = ''v2.6.0'', version = ''2.6.0''\<rparr>]"
proof -
  let ?vs = "[\<lparr>tag = ''v2.7.16'', version = ''2.7.16''\<rparr>, \<lparr>tag = ''v2.7.15'', version = ''2.7.15''\<rparr>,
      \<lparr>tag = ''v2.6.1'', version = ''2.6.1''\<rparr>, \<lparr>tag = ''v2.6.0'', version = ''2.6.0''\<rparr>]"
  have v: "list_all (\<lambda>e. semver_valid (version e)) ?vs"
    by code_simp
  have s: "sorted_wrt (\<lambda>a b. semver_gte (version a) (version b)) ?vs"
    by code_simp
  have g: "getLatestPatchPerMinor ?vs
      = [\<lparr>tag = ''v2.7.16'', version = ''2.7.16''\<rparr>, \<lparr>tag = ''v2.6.1'', version = ''2.6.1''\<rparr>]"
    by code_simp
  have d: "distinct (map minorOf (getLatestPatchPerMinor ?vs))"
    and i: "minorOf ` set (getLatestPatchPerMinor ?vs) = minorOf ` set ?vs"
    using getLatestPatchPerMinor_first_per_minor [OF v s] by blast+
  from v s g d i show ?thesis by blast
qed

text \<open>
  C5: from the tags \<open>v2.7.16\<close>, \<open>v2.7.15\<close>, \<open>v2.6.0\<close>, \<open>v2.6.1\<close> and \<open>notaversion\<close> the
  catalog has the four versions 2.7.16, 2.7.15, 2.6.1, 2.6.0 in this order; the range
  \<open>>2.6.0\<close> keeps 2.7.16, 2.7.15 and 2.6.1; and the collapse to the latest patch of each
  minor line gives the plan 2.7.16, 2.6.1.
\<close>

theorem plan_gt_2_6_0:
  "getAllValidVersions [''v2.7.16'', ''v2.7.15'', ''v2.6.0'', ''v2.6.1'', ''notaversion'']
     = Inr [\<lparr>tag = ''v2.7.16'', version = ''2.7.16''\<rparr>, \<lparr>tag = ''v2.7.15'', version = ''2.7.15''\<rparr>,
            \<lparr>tag = ''v2.6.1'', version = ''2.6.1''\<rparr>, \<lparr>tag = ''v2.6.0'', version = ''2.6.0''\<rparr>]
   \<and> filterTagsBySemver [''v2.7.16'', ''v2.7.15'', ''v2.6.0'', ''v2.6.1'', ''notaversion''] ''>2.6.0''
     = Some (Inr [\<lparr>tag = ''v2.7.16'', version = ''2.7.16''\<rparr>, \<lparr>tag = ''v2.7.15'', version = ''2.7.15''\<rparr>,
                  \<lparr>tag = ''v2.6.1'', version = ''2.6.1''\<rparr>])
   \<and> getLatestPatchPerMinor
         [\<lparr>tag = ''v2.7.16'', version = ''2.7.16''\<rparr>, \<lparr>tag = ''v2.7.15'', version = ''2.7.15''\<rparr>,
          \<lparr>tag = ''v2.6.1'', version = ''2.6.1''\<rparr>]
     = [\<lparr>tag = ''v2.7.16'', version = ''2.7.16''\<rparr>, \<lparr>tag = ''v2.6.1'', version = ''2.6.1''\<rparr>]"
  by code_simp

section \<open>The build orchestrator\<close>

lemma buildLoop_eq:
  "buildLoop run bnum cacheBust cacheCleanup results spawned es =
     (results @ map (\<lambda>(i, e). resultAt run bnum cacheBust cacheCleanup i e)
                  (zip [length spawned ..< length spawned + length es] es),
      spawned @ map (argsOf bnum cacheBust cacheCleanup) es)"
proof (induction es arbitrary: results spawned)
  case Nil
  then show ?case by simp
next
  case (Cons e es)
  have up: "[length spawned ..< length spawned + length (e # es)]
              = length spawned # [Suc (length spawned) ..< Suc (length spawned) + length es]"
    using upt_conv_Cons [of "length spawned" "length spawned + length (e # es)"] by simp
  show ?case
    unfolding up
    by (simp add: buildImage_def Let_def Cons.IH resultAt_def argsOf_def)
qed

lemma buildSequentially_eq:
  "buildSequentially run plan bnum cacheBust cacheCleanup =
     (map (\<lambda>(i, e). resultAt run bnum cacheBust cacheCleanup i e) (zip [0 ..< length plan] plan),
      map (argsOf bnum cacheBust cacheCleanup) plan)"
  by (simp add: buildSequentially_def buildLoop_eq)

lemma onOutcome_fields:
  "res_version (onOutcome v it oc) = v"
  "imageTag (onOutcome v it oc) = it"
  "success (onOutcome v it oc) = (oc = Close (Some 0))"
  by (cases oc; simp)+

lemma onOutcome_error:
  "error (onOutcome v it oc) =
     (case oc of Close code \<Rightarrow> if code = Some 0 then None else Some (exitCodeText code)
      | Error message \<Rightarrow> Some message)"
  by (cases oc) simp_all

text \<open>
  C1: \<open>buildSequentially\<close> returns one result for each entry of the plan, in the order
  of the plan, and has spawned one build for each entry, in that order, whatever the
  earlier builds gave. The \<open>i\<close>-th result carries the version of the \<open>i\<close>-th entry and
  its image tag; it is a success exactly when the \<open>i\<close>-th process closed with the exit
  code 0, and otherwise it carries the text of the exit code, or the message of the
  error when the process could not be spawned. So the results that failed are as many as
  the processes that did not close with 0.
\<close>

theorem buildSequentially_all_attempted:
  assumes "buildSequentially run plan bnum cacheBust cacheCleanup = (results, spawned)"
  shows "length results = length plan
    \<and> spawned = map (\<lambda>e. dockerArgs (tag e) (version e) bnum cacheBust cacheCleanup) plan
    \<and> (\<forall>i < length plan.
          res_version (results ! i) = version (plan ! i)
        \<and> imageTag (results ! i) = ''v'' @ version (plan ! i) @ ''-'' @ showNat bnum
        \<and> success (results ! i) = (run i (spawned ! i) = Close (Some 0))
        \<and> error (results ! i) =
            (case run i (spawned ! i) of
               Close code \<Rightarrow> if code = Some 0 then None else Some (exitCodeText code)
             | Error message \<Rightarrow> Some message))
    \<and> length (filter (\<lambda>r. \<not> success r) results)
        = length (filter (\<lambda>i. run i (spawned ! i) \<noteq> Close (Some 0)) [0 ..< length plan])"
proof -
  have r: "results = map (\<lambda>(i, e). resultAt run bnum cacheBust cacheCleanup i e) (zip [0 ..< length plan] plan)"
    and s: "spawned = map (argsOf bnum cacheBust cacheCleanup) plan"
    using assms by (simp_all add: buildSequentially_eq)
  have len: "length results = length plan" by (simp add: r)
  have sp: "spawned = map (\<lambda>e. dockerArgs (tag e) (version e) bnum cacheBust cacheCleanup) plan"
    unfolding s argsOf_def ..
  have at: "results ! i = resultAt run bnum cacheBust cacheCleanup i (plan ! i)" if "i < length plan" for i
    using that by (simp add: r)
  have sat: "spawned ! i = argsOf bnum cacheBust cacheCleanup (plan ! i)" if "i < length plan" for i
    using that by (simp add: s)
  have each: "\<forall>i < length plan.
          res_version (results ! i) = version (plan ! i)
        \<and> imageTag (results ! i) = ''v'' @ version (plan ! i) @ ''-'' @ showNat bnum
        \<and> success (results ! i) = (run i (spawned ! i) = Close (Some 0))
        \<and> error (results ! i) =
            (case run i (spawned ! i) of
               Close code \<Rightarrow> if code = Some 0 then None else Some (exitCodeText code)
             | Error message \<Rightarrow> Some message)"
    by (simp add: at sat resultAt_def argsOf_def onOutcome_fields onOutcome_error imageTagOf_def
        del: onOutcome.simps)
  have ms: "map success results = map (\<lambda>i. run i (spawned ! i) = Close (Some 0)) [0 ..< length plan]"
    by (rule nth_equalityI) (simp_all add: len each)
  have "length (filter (\<lambda>r. \<not> success r) results) = length (filter (\<lambda>b. \<not> b) (map success results))"
    by (simp add: filter_map comp_def)
  also have "\<dots> = length (filter (\<lambda>i. run i (spawned ! i) \<noteq> Close (Some 0)) [0 ..< length plan])"
    unfolding ms by (simp add: filter_map comp_def)
  finally show ?thesis
    using len sp each by blast
qed

text \<open>
  A plan of three entries whose second build exits with 2: three results, one of
  them failed, three builds spawned.
\<close>

theorem buildSequentially_all_attempted_witness:
  "buildSequentially (\<lambda>n args. if n = 1 then Close (Some 2) else Close (Some 0))
       [\<lparr>tag = ''v2.7.16'', version = ''2.7.16''\<rparr>, \<lparr>tag = ''v2.7.15'', version = ''2.7.15''\<rparr>,
        \<lparr>tag = ''v2.6.1'', version = ''2.6.1''\<rparr>] 1 ''1'' None
     = ([\<lparr>res_version = ''2.7.16'', imageTag = ''v2.7.16-1'', success = True, error = None\<rparr>,
         \<lparr>res_version = ''2.7.15'', imageTag = ''v2.7.15-1'', success = False,
            error = Some ''Exit code: 2''\<rparr>,
         \<lparr>res_version = ''2.6.1'', imageTag = ''v2.6.1-1'', success = True, error = None\<rparr>],
        [[''build'', ''--build-arg'', ''MESHTASTIC_VERSION=v2.7.16'', ''--build-arg'', ''CACHE_BUST=1'',
          ''-t'', ''benallfree/meshtastic-docker:v2.7.16-1'', ''.''],
         [''build'', ''--build-arg'', ''MESHTASTIC_VERSION=v2.7.15'', ''--build-arg'', ''CACHE_BUST=1'',
          ''-t'', ''benallfree/meshtastic-docker:v2.7.15-1'', ''.''],
         [''build'', ''--build-arg'', ''MESHTASTIC_VERSION=v2.6.1'', ''--build-arg'', ''CACHE_BUST=1'',
          ''-t'', ''benallfree/meshtastic-docker:v2.6.1-1'', ''.'']])
   \<and> length (filter (\<lambda>r. \<not> success r)
        [\<lparr>res_version = ''2.7.16'', imageTag = ''v2.7.16-1'', success = True, error = None\<rparr>,
         \<lparr>res_version = ''2.7.15'', imageTag = ''v2.7.15-1'', success = False,
            error = Some ''Exit code: 2''\<rparr>,
         \<lparr>res_version = ''2.6.1'', imageTag = ''v2.6.1-1'', success = True, error = None\<rparr>]) = 1"
proof -
  let ?run = "\<lambda>(n::nat) (args::string list). if n = 1 then Close (Some 2) else Close (Some 0)"
  let ?plan = "[\<lparr>tag = ''v2.7.16'', version = ''2.7.16''\<rparr>, \<lparr>tag = ''v2.7.15'', version = ''2.7.15''\<rparr>,
        \<lparr>tag = ''v2.6.1'', version = ''2.6.1''\<rparr>]"
  let ?results = "[\<lparr>res_version = ''2.7.16'', imageTag = ''v2.7.16-1'', success = True, error = None\<rparr>,
         \<lparr>res_version = ''2.7.15'', imageTag = ''v2.7.15-1'', success = False,
            error = Some ''Exit code: 2''\<rparr>,
         \<lparr>res_version = ''2.6.1'', imageTag = ''v2.6.1-1'', success = True, error = None\<rparr>]"
  let ?spawned = "[[''build'', ''--build-arg'', ''MESHTASTIC_VERSION=v2.7.16'', ''--build-arg'', ''CACHE_BUST=1'',
          ''-t'', ''benallfree/meshtastic-docker:v2.7.16-1'', ''.''],
         [''build'', ''--build-arg'', ''MESHTASTIC_VERSION=v2.7.15'', ''--build-arg'', ''CACHE_BUST=1'',
          ''-t'', ''benallfree/meshtastic-docker:v2.7.15-1'', ''.''],
         [''build'', ''--build-arg'', ''MESHTASTIC_VERSION=v2.6.1'', ''--build-arg'', ''CACHE_BUST=1'',
          ''-t'', ''benallfree/meshtastic-docker:v2.6.1-1'', ''.'']]"
  have e: "buildSequentially ?run ?plan 1 ''1'' None = (?results, ?spawned)"
    by code_simp
  have "length (filter (\<lambda>r. \<not> success r) ?results)
      = length (filter (\<lambda>i. ?run i (?spawned ! i) \<noteq> Close (Some 0)) [0 ..< length ?plan])"
    using buildSequentially_all_attempted [OF e] by blast
  also have "\<dots> = 1"
    by code_simp
  finally show ?thesis
    using e by blast
qed

lemma matchImageLine_prefix:
  "take (length IMAGE_PREFIX) line \<noteq> IMAGE_PREFIX \<Longrightarrow> matchImageLine line = None"
  by (simp add: matchImageLine_def)

lemma fullTag_form: "fullTag v n = ''benallfree/meshtastic-docker:v'' @ v @ ''-'' @ showNat n"
  by (simp add: fullTag_def IMAGE_NAME_def imageTagOf_def)

lemma fullTag_unmatched: "matchImageLine (fullTag v n) = None"
proof -
  have "take (length IMAGE_PREFIX) (fullTag v n) \<noteq> IMAGE_PREFIX"
    unfolding fullTag_form by (simp add: IMAGE_PREFIX_def)
  then show ?thesis
    by (rule matchImageLine_prefix)
qed

lemma dockerArgs_tag: "\<exists>pre. dockerArgs t v n cacheBust cacheCleanup = pre @ [''-t'', fullTag v n, ''.'']"
  by (simp add: dockerArgs_def)

text \<open>
  C10: for every version text and every build number (an integer the runtime holds
  exactly), \<open>buildImage\<close> spawns one build whose arguments end with \<open>-t\<close>, the tag
  \<open>benallfree/meshtastic-docker:v<version>-<buildNum>\<close> and the build context; this tag
  is the image name, a colon and the image tag of the result; and the pattern of the
  locator, which starts with \<open>meshtastic-docker:v\<close>, does not match it.
\<close>

theorem buildImage_tag_not_located:
  assumes "bnum \<le> MAX_SAFE_INTEGER"
    and "buildImage run spawned t v bnum cacheBust cacheCleanup = (result, spawned')"
  shows "\<exists>pre tg. spawned' = spawned @ [pre @ [''-t'', tg, ''.'']]
       \<and> tg = ''benallfree/meshtastic-docker:v'' @ v @ ''-'' @ showNat bnum
       \<and> tg = ''benallfree/meshtastic-docker:'' @ imageTag result
       \<and> matchImageLine tg = None"
proof -
  from dockerArgs_tag obtain pre
    where pre: "dockerArgs t v bnum cacheBust cacheCleanup = pre @ [''-t'', fullTag v bnum, ''.'']"
    by blast
  have sp: "spawned' = spawned @ [pre @ [''-t'', fullTag v bnum, ''.'']]"
    using assms(2) pre by (simp add: buildImage_def Let_def)
  have "imageTag result = imageTagOf v bnum"
    using assms(2) by (auto simp: buildImage_def Let_def onOutcome_fields simp del: onOutcome.simps)
  then have it: "fullTag v bnum = ''benallfree/meshtastic-docker:'' @ imageTag result"
    by (simp add: fullTag_def IMAGE_NAME_def)
  from sp fullTag_form [of v bnum] it fullTag_unmatched [of v bnum] show ?thesis
    by blast
qed

text \<open>
  The build 1 of the version 2.7.16: the tag is
  \<open>benallfree/meshtastic-docker:v2.7.16-1\<close>, and the locator does not match it.
\<close>

theorem buildImage_tag_not_located_witness:
  "(1::nat) \<le> MAX_SAFE_INTEGER
   \<and> buildImage (\<lambda>n args. Close (Some 0)) [] ''v2.7.16'' ''2.7.16'' 1 ''1'' None
     = (\<lparr>res_version = ''2.7.16'', imageTag = ''v2.7.16-1'', success = True, error = None\<rparr>,
        [[''build'', ''--build-arg'', ''MESHTASTIC_VERSION=v2.7.16'', ''--build-arg'', ''CACHE_BUST=1'',
          ''-t'', ''benallfree/meshtastic-docker:v2.7.16-1'', ''.'']])
   \<and> matchImageLine ''benallfree/meshtastic-docker:v2.7.16-1'' = None"
proof -
  let ?result = "\<lparr>res_version = ''2.7.16'', imageTag = ''v2.7.16-1'', success = True, error = None\<rparr>"
  let ?spawned = "[[''build'', ''--build-arg'', ''MESHTASTIC_VERSION=v2.7.16'', ''--build-arg'', ''CACHE_BUST=1'',
          ''-t'', ''benallfree/meshtastic-docker:v2.7.16-1'', ''.'']]"
  have h: "(1::nat) \<le> MAX_SAFE_INTEGER"
    by (simp add: MAX_SAFE_INTEGER_def)
  have e: "buildImage (\<lambda>n args. Close (Some 0)) [] ''v2.7.16'' ''2.7.16'' 1 ''1'' None = (?result, ?spawned)"
    by code_simp
  from buildImage_tag_not_located [OF h e] obtain tg
    where "tg = ''benallfree/meshtastic-docker:'' @ imageTag ?result" and "matchImageLine tg = None"
    by blast
  then have "matchImageLine ''benallfree/meshtastic-docker:v2.7.16-1'' = None"
    by simp
  with h e show ?thesis by blast
qed

section \<open>The image locator\<close>

lemma cmp_ok_swap:
  assumes "cmp_ok f"
  shows "cmp_ok (\<lambda>a b. f (g b) (g a))"
proof (rule cmp_okI)
  fix a b
  show "f (g b) (g a) = - f (g a) (g b)"
    by (rule cmp_ok_sym [OF assms])
next
  fix a b c
  assume 1: "f (g b) (g a) \<le> 0" and 2: "f (g c) (g b) \<le> 0"
  show "f (g c) (g a) \<le> 0"
    by (rule cmp_ok_trans [OF assms 2 1])
qed

lemma cmp_ok_imgCmp: "cmp_ok imgCmp"
  unfolding imgCmp_def
proof (rule cmp_ok_lex)
  show "cmp_ok (\<lambda>a b. SemVer_compare (the (parseSemVer (img_version b))) (the (parseSemVer (img_version a))))"
    by (rule cmp_ok_swap [OF cmp_ok_SemVer_compare])
  show "cmp_ok (\<lambda>a b. int (buildNum b) - int (buildNum a))"
    by (rule cmp_okI) auto
qed

lemma imageDesc_valid:
  "semver_valid (img_version a) \<Longrightarrow> semver_valid (img_version b) \<Longrightarrow> imageDesc a b = Inr (imgCmp a b)"
  by (auto simp: semver_valid_def imageDesc_def semver_compare_def imgCmp_def lexCmp_def)

lemma imgCmp_same_version:
  "img_version a = img_version b \<Longrightarrow> imgCmp a b = int (buildNum b) - int (buildNum a)"
  by (simp add: imgCmp_def lexCmp_def cmp_ok_refl [OF cmp_ok_SemVer_compare])

lemma sort_images_valid:
  assumes "list_all (\<lambda>i. semver_valid (img_version i)) imgs"
  shows "js_sort imageDesc imgs = Inr (sortBy imgCmp imgs)"
  by (rule js_sort_pure) (use assms in \<open>auto simp: list_all_iff intro: imageDesc_valid\<close>)

lemma find_sorted_best:
  assumes srt: "sorted_wrt (\<lambda>a b. imgCmp a b \<le> 0) images"
  shows "(if \<exists>i \<in> set images. img_version i = v
          then \<exists>m \<in> set images. find (\<lambda>img. img_version img = v) images = Some m \<and> img_version m = v
                 \<and> (\<forall>i \<in> set images. img_version i = v \<longrightarrow> buildNum i \<le> buildNum m)
          else find (\<lambda>img. img_version img = v) images = None)"
proof (cases "\<exists>i \<in> set images. img_version i = v")
  case False
  then show ?thesis by (simp add: find_None_iff)
next
  case True
  then obtain m where f: "find (\<lambda>img. img_version img = v) images = Some m"
    by (cases "find (\<lambda>img. img_version img = v) images") (auto simp: find_None_iff)
  then obtain k where k: "k < length images" "img_version (images ! k) = v" "m = images ! k"
    "\<forall>j < k. img_version (images ! j) \<noteq> v"
    by (auto simp: find_Some_iff)
  have m: "m \<in> set images" "img_version m = v" using k by auto
  have best: "buildNum i \<le> buildNum m" if i: "i \<in> set images" "img_version i = v" for i
  proof -
    from i(1) obtain j where j: "j < length images" "i = images ! j" by (auto simp: in_set_conv_nth)
    have "\<not> j < k" using k(4) j i(2) by auto
    then have "j = k \<or> k < j" by auto
    then show ?thesis
    proof
      assume "j = k"
      then show ?thesis using j k by simp
    next
      assume "k < j"
      then have "imgCmp m i \<le> 0" using srt j k by (simp add: sorted_wrt_iff_nth_less)
      then show ?thesis using imgCmp_same_version [of m i] m i by simp
    qed
  qed
  show ?thesis using True f m best by auto
qed

text \<open>
  On a listing whose matching tags carry valid versions, with numeric prerelease
  identifiers and build numbers below \<open>2^53\<close>, and for a version text that is not
  empty, \<open>findImageForVersion\<close> finds the image: if no listed image has this version
  text it returns \<open>null\<close>, and otherwise it returns the image line of a listed image
  with this version text whose build number is the highest among them.
\<close>

lemma findImageForVersion_valid_listing:
  assumes nonempty: "v \<noteq> []"
    and valid: "list_all (\<lambda>i. semver_valid (img_version i)) (listImages stdout)"
    and exact: "list_all (\<lambda>i. exactVersion (img_version i) \<and> buildNum i < 2 ^ 53) (listImages stdout)"
  shows "(if \<exists>i \<in> set (listImages stdout). img_version i = v
          then \<exists>m \<in> set (listImages stdout).
                 findImageForVersion (Inr stdout) (Some v) = Some (image m) \<and> img_version m = v
                 \<and> (\<forall>i \<in> set (listImages stdout). img_version i = v \<longrightarrow> buildNum i \<le> buildNum m)
          else findImageForVersion (Inr stdout) (Some v) = None)"
proof -
  let ?images = "sortBy imgCmp (listImages stdout)"
  have srt: "sorted_wrt (\<lambda>a b. imgCmp a b \<le> 0) ?images"
    by (rule sorted_sortBy [OF cmp_ok_imgCmp])
  have res: "findImageForVersion (Inr stdout) (Some v) =
      (case find (\<lambda>img. img_version img = v) ?images of None \<Rightarrow> None | Some m \<Rightarrow> Some (image m))"
    using nonempty
    by (simp add: findImageForVersion_def findImageForVersion_try_def sort_images_valid [OF valid] truthy_def)
  show ?thesis
    using find_sorted_best [OF srt, of v]
    by (auto simp: res set_sortBy split: if_splits)
qed

text \<open>
  Three builds of 2.7.16 and one of 2.8.0 are listed: the build 3 of 2.7.16 is found
  for 2.7.16, and nothing is found for 2.9.0.
\<close>

lemma findImageForVersion_valid_listing_example:
  "findImageForVersion (Inr ''meshtastic-docker:v2.7.16-1\<newline>meshtastic-docker:v2.7.16-3\<newline>meshtastic-docker:v2.7.16-2\<newline>meshtastic-docker:v2.8.0-1\<newline>'') (Some ''2.7.16'')
       = Some ''meshtastic-docker:v2.7.16-3''
   \<and> findImageForVersion (Inr ''meshtastic-docker:v2.7.16-1\<newline>meshtastic-docker:v2.7.16-3\<newline>meshtastic-docker:v2.7.16-2\<newline>meshtastic-docker:v2.8.0-1\<newline>'') (Some ''2.9.0'')
       = None"
  by code_simp

text \<open>
  C6: the image whose version is the one asked for is to be returned, for every listing.
  The code misses it when the listing also has a tag that matches the pattern with a
  version that is not a valid semantic version. Here \<open>meshtastic-docker:v2.7.16-1\<close> is
  listed and gives the version \<open>2.7.16\<close> that is asked for, and alone it is found; with
  \<open>meshtastic-docker:v01.0.0-1\<close> listed too (\<open>01.0.0\<close> has a leading zero), the comparator
  of the sort throws, the \<open>catch\<close> returns \<open>null\<close>, and nothing is found.
  \<open>getAllValidVersions\<close> filters with \<open>semver.valid\<close> before the same sort;
  \<open>findImageForVersion\<close> does not.
\<close>

theorem findImageForVersion_invalid_tag:
  "listImages ''meshtastic-docker:v2.7.16-1\<newline>meshtastic-docker:v01.0.0-1\<newline>''
     = [\<lparr>image = ''meshtastic-docker:v2.7.16-1'', img_version = ''2.7.16'', buildNum = 1\<rparr>,
        \<lparr>image = ''meshtastic-docker:v01.0.0-1'', img_version = ''01.0.0'', buildNum = 1\<rparr>]
   \<and> semver_valid ''2.7.16''
   \<and> \<not> semver_valid ''01.0.0''
   \<and> findImageForVersion_try
         (Inr ''meshtastic-docker:v2.7.16-1\<newline>meshtastic-docker:v01.0.0-1\<newline>'') (Some ''2.7.16'')
       = Inl TypeError
   \<and> findImageForVersion
         (Inr ''meshtastic-docker:v2.7.16-1\<newline>meshtastic-docker:v01.0.0-1\<newline>'') (Some ''2.7.16'')
       = None
   \<and> findImageForVersion (Inr ''meshtastic-docker:v2.7.16-1\<newline>'') (Some ''2.7.16'')
       = Some ''meshtastic-docker:v2.7.16-1''"
  by code_simp

text \<open>
  C8, as the code has it: the pattern names the repository \<open>meshtastic-docker\<close>. The tag
  \<open>meshtastic-docker:v2.7.16-3\<close> gives the version \<open>2.7.16\<close> and the build number 3. The
  tag \<open>meshtastic-docker:latest\<close>, of the locator's own repository, has no version and
  build number and gives nothing, and so does the tag \<open>myrepo:latest\<close>.
\<close>

theorem matchImageLine_examples:
  "matchImageLine ''meshtastic-docker:v2.7.16-3''
     = Some \<lparr>image = ''meshtastic-docker:v2.7.16-3'', img_version = ''2.7.16'', buildNum = 3\<rparr>
   \<and> matchImageLine ''meshtastic-docker:latest'' = None
   \<and> listImages ''meshtastic-docker:latest'' = []
   \<and> matchImageLine ''myrepo:latest'' = None
   \<and> listImages ''myrepo:latest'' = []"
  by code_simp

text \<open>
  C8 as stated takes the tag \<open>myrepo:v2.7.16-3\<close>: its repository is not
  \<open>meshtastic-docker\<close>, and the locator ignores it.
\<close>

theorem matchImageLine_myrepo:
  "matchImageLine ''myrepo:v2.7.16-3'' = None \<and> listImages ''myrepo:v2.7.16-3'' = []"
  by code_simp

text \<open>
  C7: \<open>findImageForVersion\<close> returns \<open>null\<close> when the listing of the images failed, when
  the listing is empty, and when no line of the listing matches the pattern, whatever
  version is asked for. Its result is always a value: the \<open>catch\<close> takes every error of
  the \<open>try\<close> block.
\<close>

theorem findImageForVersion_no_images:
  "findImageForVersion (Inl e) v = None
   \<and> findImageForVersion (Inr []) v = None
   \<and> (listImages stdout = [] \<longrightarrow> findImageForVersion (Inr stdout) v = None)"
  by (simp add: findImageForVersion_def findImageForVersion_try_def listImages_def trim_def
      List.map_filter_simps)

text \<open>
  A listing whose only line is \<open>myrepo:latest\<close> has no matching line, and nothing is
  found in it; nothing is found either when the listing fails.
\<close>

theorem findImageForVersion_no_images_witness:
  "listImages ''myrepo:latest\<newline>'' = []
   \<and> findImageForVersion (Inr ''myrepo:latest\<newline>'') None = None
   \<and> findImageForVersion (Inl ExecError) (Some ''2.7.16'') = None"
proof -
  have l: "listImages ''myrepo:latest\<newline>'' = []"
    by code_simp
  have "findImageForVersion (Inr ''myrepo:latest\<newline>'') None = None"
    using findImageForVersion_no_images [of ExecError None "''myrepo:latest\<newline>''"] l by blast
  moreover have "findImageForVersion (Inl ExecError) (Some ''2.7.16'') = None"
    using findImageForVersion_no_images [of ExecError "Some ''2.7.16''" "[]"] by blast
  ultimately show ?thesis using l by blast
qed

section \<open>The shell launcher\<close>

text \<open>
  C9: when the script has an image and the container started on it closes with the
  exit code \<open>c\<close>, the script exits with \<open>c\<close>.
\<close>

theorem main_exit_code:
  "resolveImage env = Inr img \<Longrightarrow> container env img = Close (Some c) \<Longrightarrow> main env = c"
  by (simp add: main_def)

text \<open>
  The image of 2.7.16 is listed and asked for, and the container closes with 42: the
  script exits with 42.
\<close>

theorem main_exit_code_witness:
  "resolveImage \<lparr>argv2 = Some ''2.7.16'', git_tags = Inl ExecError,
       images_before = Inr ''meshtastic-docker:v2.7.16-1'', build_returns = False,
       images_after = Inl ExecError, container = (\<lambda>img. Close (Some 42))\<rparr>
     = Inr ''meshtastic-docker:v2.7.16-1''
   \<and> main \<lparr>argv2 = Some ''2.7.16'', git_tags = Inl ExecError,
       images_before = Inr ''meshtastic-docker:v2.7.16-1'', build_returns = False,
       images_after = Inl ExecError, container = (\<lambda>img. Close (Some 42))\<rparr> = 42"
proof -
  let ?env = "\<lparr>argv2 = Some ''2.7.16'', git_tags = Inl ExecError,
       images_before = Inr ''meshtastic-docker:v2.7.16-1'', build_returns = False,
       images_after = Inl ExecError, container = (\<lambda>img. Close (Some 42))\<rparr>"
  have r: "resolveImage ?env = Inr ''meshtastic-docker:v2.7.16-1''"
    by code_simp
  have c: "container ?env ''meshtastic-docker:v2.7.16-1'' = Close (Some 42)"
    by simp
  have "main ?env = 42"
    by (rule main_exit_code [OF r c])
  with r show ?thesis by blast
qed

end
